theory Spec2Isabelle
  imports Complex_Main "HOL-Library.Sublist"
begin

section \<open>Text primitives of the subtitle-to-prompt stage\<close>

text \<open>
  The development embeds \<^verbatim>\<open>src/legacy/srt_to_prompts.py\<close>. A Python \<^verbatim>\<open>str\<close> is a
  \<^typ>\<open>string\<close>; a \<^typ>\<open>char\<close> stands for the code point of the same number, so the model
  covers text within U+0000..U+00FF. Inside that range the character classes below are the
  ones Python uses: \<^verbatim>\<open>str.isspace\<close>, \<^verbatim>\<open>str.strip\<close> and the pattern \<^verbatim>\<open>\s\<close> share one
  whitespace set, \<^verbatim>\<open>\d\<close> is the ten ASCII digits, and \<^verbatim>\<open>str.lower\<close> maps the letters
  A..Z and the accented capitals U+00C0..U+00DE (but for the sign U+00D7) to the code
  point 32 above. A Python float is the rational number it denotes, and every float
  operation rounds as the section on floating point says.
\<close>

definition is_space :: "char \<Rightarrow> bool" where
  "is_space c = (c \<in> set [CHR 0x09, CHR 0x0A, CHR 0x0B, CHR 0x0C, CHR 0x0D,
       CHR 0x1C, CHR 0x1D, CHR 0x1E, CHR 0x1F, CHR 0x20, CHR 0x85, CHR 0xA0])"

definition is_digit :: "char \<Rightarrow> bool" where
  "is_digit c = (c \<in> set ''0123456789'')"

definition digit_val :: "char \<Rightarrow> int" where
  "digit_val c = (case map_of (zip ''0123456789'' [0, 1, 2, 3, 4, 5, 6, 7, 8, 9]) c of
       Some v \<Rightarrow> v | None \<Rightarrow> 0)"

definition upper_letters :: string where
  "upper_letters = ''ABCDEFGHIJKLMNOPQRSTUVWXYZ'' @
     [CHR 0xC0, CHR 0xC1, CHR 0xC2, CHR 0xC3, CHR 0xC4, CHR 0xC5, CHR 0xC6, CHR 0xC7,
      CHR 0xC8, CHR 0xC9, CHR 0xCA, CHR 0xCB, CHR 0xCC, CHR 0xCD, CHR 0xCE, CHR 0xCF,
      CHR 0xD0, CHR 0xD1, CHR 0xD2, CHR 0xD3, CHR 0xD4, CHR 0xD5, CHR 0xD6,
      CHR 0xD8, CHR 0xD9, CHR 0xDA, CHR 0xDB, CHR 0xDC, CHR 0xDD, CHR 0xDE]"

definition lower_letters :: string where
  "lower_letters = ''abcdefghijklmnopqrstuvwxyz'' @
     [CHR 0xE0, CHR 0xE1, CHR 0xE2, CHR 0xE3, CHR 0xE4, CHR 0xE5, CHR 0xE6, CHR 0xE7,
      CHR 0xE8, CHR 0xE9, CHR 0xEA, CHR 0xEB, CHR 0xEC, CHR 0xED, CHR 0xEE, CHR 0xEF,
      CHR 0xF0, CHR 0xF1, CHR 0xF2, CHR 0xF3, CHR 0xF4, CHR 0xF5, CHR 0xF6,
      CHR 0xF8, CHR 0xF9, CHR 0xFA, CHR 0xFB, CHR 0xFC, CHR 0xFD, CHR 0xFE]"

definition lower_char :: "char \<Rightarrow> char" where
  "lower_char c = (case map_of (zip upper_letters lower_letters) c of
       Some l \<Rightarrow> l | None \<Rightarrow> c)"

text \<open>\<^verbatim>\<open>s.lower()\<close>\<close>

definition lower :: "string \<Rightarrow> string" where
  "lower s = map lower_char s"

text \<open>
  The title-case form of one character, as a string: the sharp s U+00DF has the two-letter
  title case \<^verbatim>\<open>Ss\<close>. The title-case forms of U+00B5 and U+00FF lie above U+00FF; the
  model leaves these two characters as they are.
\<close>

definition title_char :: "char \<Rightarrow> string" where
  "title_char c = (if c = CHR 0xDF then ''Ss''
     else (case map_of (zip lower_letters upper_letters) c of
       Some u \<Rightarrow> [u] | None \<Rightarrow> [c]))"

text \<open>\<^verbatim>\<open>s.capitalize()\<close> (Python 3.8 and later): first character in title case, the rest
  in lower case.\<close>

fun capitalize :: "string \<Rightarrow> string" where
  "capitalize [] = []"
| "capitalize (c # cs) = title_char c @ lower cs"

text \<open>\<^verbatim>\<open>s.strip()\<close>\<close>

definition strip :: "string \<Rightarrow> string" where
  "strip s = rev (dropWhile is_space (rev (dropWhile is_space s)))"

text \<open>\<^verbatim>\<open>s.isspace()\<close>: at least one character, and all of them whitespace.\<close>

definition isspace :: "string \<Rightarrow> bool" where
  "isspace s = (s \<noteq> [] \<and> list_all is_space s)"

text \<open>\<^verbatim>\<open>sub in s\<close> on strings: \<open>sub\<close> occurs in \<open>s\<close> as a contiguous run.\<close>

fun contains :: "string \<Rightarrow> string \<Rightarrow> bool" where
  "contains [] sub = (sub = [])"
| "contains (c # cs) sub = (prefix sub (c # cs) \<or> contains cs sub)"

text \<open>\<^verbatim>\<open>sep.join(parts)\<close>\<close>

fun join :: "string \<Rightarrow> string list \<Rightarrow> string" where
  "join sep [] = []"
| "join sep [p] = p"
| "join sep (p # q # ps) = p @ sep @ join sep (q # ps)"

text \<open>\<^verbatim>\<open>s.split(sep)\<close>: the pieces between the occurrences of \<open>sep\<close>, found from the left
  and not overlapping; \<open>acc\<close> holds the current piece, reversed. Python raises
  \<^verbatim>\<open>ValueError\<close> for an empty separator; every call in this program passes a literal
  that is not empty.\<close>

fun split_str :: "string \<Rightarrow> string \<Rightarrow> string \<Rightarrow> string list" where
  "split_str sep acc [] = [rev acc]"
| "split_str sep acc (c # cs) =
     (if sep \<noteq> [] \<and> prefix sep (c # cs)
      then rev acc # split_str sep [] (drop (length sep - 1) cs)
      else split_str sep (c # acc) cs)"

definition py_split :: "string \<Rightarrow> string \<Rightarrow> string list" where
  "py_split s sep = split_str sep [] s"

text \<open>\<^verbatim>\<open>int(g)\<close> on a run of decimal digits.\<close>

definition int_of_digits :: "string \<Rightarrow> int" where
  "int_of_digits g = foldl (\<lambda>a c. 10 * a + digit_val c) 0 g"

section \<open>Floating point\<close>

text \<open>
  Python's float is the IEEE 754 double: in the normal range a number with 53 significant
  bits. A float operation returns the double nearest to the exact result, and of two
  equally near doubles the one whose last bit is zero. Every number this program computes
  is below \<^verbatim>\<open>2^19\<close> in magnitude, and one that is not zero comes from quotients that are at
  least \<^verbatim>\<open>1/1000\<close>; all of them lie far inside the normal range, so the rounding of that
  range is all there is to model. An integer operand of a float operation is converted
  without error, being far below \<^verbatim>\<open>2^53\<close>.
\<close>

text \<open>The integer nearest to \<open>y\<close>, the even one of two equally near.\<close>

definition round_even :: "rat \<Rightarrow> int" where
  "round_even y =
     (if y - of_int \<lfloor>y\<rfloor> < 1 / 2 then \<lfloor>y\<rfloor>
      else if 1 / 2 < y - of_int \<lfloor>y\<rfloor> then \<lfloor>y\<rfloor> + 1
      else if even \<lfloor>y\<rfloor> then \<lfloor>y\<rfloor> else \<lfloor>y\<rfloor> + 1)"

text \<open>A positive magnitude \<open>a\<close> brought to at least \<^verbatim>\<open>2^52\<close> and below \<^verbatim>\<open>2^53\<close> by doubling
  or halving; \<open>p\<close> is doubled and halved along with it.\<close>

function scale53 :: "rat \<Rightarrow> rat \<Rightarrow> rat \<times> rat" where
  "scale53 a p =
     (if 0 < a \<and> a < 2 ^ 52 then scale53 (2 * a) (2 * p)
      else if 2 ^ 53 \<le> a then scale53 (a / 2) (p / 2)
      else (a, p))"
  by pat_completeness auto
termination
proof (relation "measures [\<lambda>(a, p). if 2 ^ 53 \<le> a then nat \<lfloor>a\<rfloor> else 0,
                           \<lambda>(a, p). if 0 < a \<and> a < 2 ^ 52 then nat \<lceil>2 ^ 52 / a\<rceil> else 0]")
  fix a p :: rat
  assume a: "0 < a \<and> a < 2 ^ 52"
  define y where "y = 2 ^ 52 / a"
  from a have y: "1 < y" by (simp add: y_def)
  then have c: "2 \<le> \<lceil>y\<rceil>" by (simp add: le_ceiling_iff)
  have "y / 2 \<le> of_int \<lceil>y\<rceil> / 2" by (simp add: le_of_int_ceiling)
  also have "\<dots> \<le> of_int (\<lceil>y\<rceil> - 1)" using c by simp
  finally have "\<lceil>y / 2\<rceil> \<le> \<lceil>y\<rceil> - 1" by (rule ceiling_le)
  with c have "nat \<lceil>y / 2\<rceil> < nat \<lceil>y\<rceil>" by linarith
  moreover have "2 ^ 52 / (2 * a) = y / 2" by (simp add: y_def)
  ultimately have "nat \<lceil>2 ^ 52 / (2 * a)\<rceil> < nat \<lceil>2 ^ 52 / a\<rceil>"
    by (simp only: y_def)
  moreover have "\<not> 2 ^ 53 \<le> a" "\<not> 2 ^ 53 \<le> 2 * a" using a by simp_all
  ultimately show "((2 * a, 2 * p), (a, p)) \<in>
     measures [\<lambda>(a, p). if 2 ^ 53 \<le> a then nat \<lfloor>a\<rfloor> else 0,
               \<lambda>(a, p). if 0 < a \<and> a < 2 ^ 52 then nat \<lceil>2 ^ 52 / a\<rceil> else 0]"
    using a c by (auto simp: y_def)
next
  fix a p :: rat
  assume n: "\<not> (0 < a \<and> a < 2 ^ 52)" and a: "2 ^ 53 \<le> a"
  then have f: "2 \<le> \<lfloor>a\<rfloor>" by (simp add: le_floor_iff)
  have "a < of_int \<lfloor>a\<rfloor> + 1" by linarith
  moreover have "(2::rat) \<le> of_int \<lfloor>a\<rfloor>"
    using f by (simp add: of_int_le_iff [of 2, simplified])
  ultimately have "a / 2 < of_int \<lfloor>a\<rfloor>" by linarith
  then have "\<lfloor>a / 2\<rfloor> < \<lfloor>a\<rfloor>" by (simp add: floor_less_iff)
  with f a show "((a / 2, p / 2), (a, p)) \<in>
     measures [\<lambda>(a, p). if 2 ^ 53 \<le> a then nat \<lfloor>a\<rfloor> else 0,
               \<lambda>(a, p). if 0 < a \<and> a < 2 ^ 52 then nat \<lceil>2 ^ 52 / a\<rceil> else 0]"
    by auto
qed simp

declare scale53.simps [simp del]

text \<open>The double nearest to \<open>x\<close>: when \<open>\<bar>x\<bar>\<close> times \<open>p\<close> is at least \<^verbatim>\<open>2^52\<close> and below
  \<^verbatim>\<open>2^53\<close>, the doubles around \<open>x\<close> are the integers divided by \<open>p\<close>.\<close>

definition round_double :: "rat \<Rightarrow> rat" where
  "round_double x =
     (case scale53 \<bar>x\<bar> 1 of (y, p) \<Rightarrow> sgn x * of_int (round_even y) / p)"

text \<open>Python's \<^verbatim>\<open>a / b\<close>, \<^verbatim>\<open>a + b\<close> and \<^verbatim>\<open>a - b\<close> with a float result. The only divisor in
  this program is the literal 1000.\<close>

definition float_div :: "rat \<Rightarrow> rat \<Rightarrow> rat" where
  "float_div a b = round_double (a / b)"

definition float_add :: "rat \<Rightarrow> rat \<Rightarrow> rat" where
  "float_add a b = round_double (a + b)"

definition float_sub :: "rat \<Rightarrow> rat \<Rightarrow> rat" where
  "float_sub a b = round_double (a - b)"

section \<open>Timestamp Parser\<close>

text \<open>One step of a pattern: \<^verbatim>\<open>\d{n}\<close> and a literal, each matched at the start of the
  text and returning what is left of it.\<close>

definition re_digits :: "nat \<Rightarrow> string \<Rightarrow> (string \<times> string) option" where
  "re_digits n s = (if n \<le> length s \<and> list_all is_digit (take n s)
                    then Some (take n s, drop n s) else None)"

definition re_lit :: "string \<Rightarrow> string \<Rightarrow> string option" where
  "re_lit lit s = (if prefix lit s then Some (drop (length lit) s) else None)"

text \<open>\<^verbatim>\<open>re.match(r'(\d{2}):(\d{2}):(\d{2}),(\d{3})', timestamp)\<close>: the four groups of a
  match at the start of the text. The pattern has no end anchor.\<close>

definition time_match :: "string \<Rightarrow> (string \<times> string \<times> string \<times> string) option" where
  "time_match t =
     (case re_digits 2 t of None \<Rightarrow> None | Some (h, r1) \<Rightarrow>
     (case re_lit '':'' r1 of None \<Rightarrow> None | Some r2 \<Rightarrow>
     (case re_digits 2 r2 of None \<Rightarrow> None | Some (m, r3) \<Rightarrow>
     (case re_lit '':'' r3 of None \<Rightarrow> None | Some r4 \<Rightarrow>
     (case re_digits 2 r4 of None \<Rightarrow> None | Some (s, r5) \<Rightarrow>
     (case re_lit '','' r5 of None \<Rightarrow> None | Some r6 \<Rightarrow>
     (case re_digits 3 r6 of None \<Rightarrow> None | Some (ms, r7) \<Rightarrow>
        Some (h, m, s, ms))))))))"

definition parse_timestamp :: "string \<Rightarrow> rat" where
  "parse_timestamp timestamp =
     (case time_match timestamp of
        Some (h, m, s, ms) \<Rightarrow>
          float_add
            (of_int (int_of_digits h * 3600 + int_of_digits m * 60 + int_of_digits s))
            (float_div (of_int (int_of_digits ms)) 1000)
      | None \<Rightarrow> 0)"

section \<open>Subtitle Segmenter\<close>

record segment =
  seg_start :: rat
  seg_end :: rat
  seg_duration :: rat
  seg_text :: string

text \<open>
  \<^verbatim>\<open>re.split(r'\n\s*\n', text)\<close>. A separator starts at a newline; the greedy \<^verbatim>\<open>\s*\<close>
  takes the whole run of whitespace after it and gives characters back until the closing
  \<^verbatim>\<open>\n\<close> fits, so the separator ends at the last newline of that run. \<open>blank_sep\<close> is
  the match at the start of a text: what follows the separator, when there is one.
\<close>

definition blank_sep :: "string \<Rightarrow> string option" where
  "blank_sep s =
     (case s of
        [] \<Rightarrow> None
      | c # t \<Rightarrow>
          (let w = takeWhile is_space t in
           if c = CHR ''\<newline>'' \<and> CHR ''\<newline>'' \<in> set w
           then Some (rev (takeWhile (\<lambda>x. x \<noteq> CHR ''\<newline>'') (rev w)) @ dropWhile is_space t)
           else None))"

function re_split_blank :: "string \<Rightarrow> string \<Rightarrow> string list" where
  "re_split_blank acc [] = [rev acc]"
| "re_split_blank acc (c # t) =
     (case blank_sep (c # t) of
        Some r \<Rightarrow> rev acc # re_split_blank [] r
      | None \<Rightarrow> re_split_blank (c # acc) t)"
  by pat_completeness auto
termination
proof (relation "measure (\<lambda>(acc, s). length s)")
  fix acc :: string and c :: char and t r :: string
  assume m: "blank_sep (c # t) = Some r"
  define w where "w = takeWhile is_space t"
  from m have r: "r = rev (takeWhile (\<lambda>x. x \<noteq> CHR ''\<newline>'') (rev w)) @ dropWhile is_space t"
    by (auto simp: blank_sep_def w_def Let_def split: if_splits)
  have "length (takeWhile (\<lambda>x. x \<noteq> CHR ''\<newline>'') (rev w)) \<le> length w"
    using length_takeWhile_le [of _ "rev w"] by simp
  moreover have "length w + length (dropWhile is_space t) = length t"
    unfolding w_def by (metis length_append takeWhile_dropWhile_id)
  ultimately show "(([], r), (acc, c # t)) \<in> measure (\<lambda>(acc, s). length s)"
    using r by simp
qed simp_all

text \<open>
  \<^verbatim>\<open>re.match(r'([\d:,]+)\s*-->\s*([\d:,]+)', timestamp_line)\<close>. No character of the
  class \<^verbatim>\<open>[\d:,]\<close> is whitespace or a dash, so a greedy run can give nothing back: each
  group is the longest run of the class at its place.
\<close>

definition is_ts_char :: "char \<Rightarrow> bool" where
  "is_ts_char c = (is_digit c \<or> c = CHR '':'' \<or> c = CHR '','')"

definition timing_match :: "string \<Rightarrow> (string \<times> string) option" where
  "timing_match timestamp_line =
     (let start_ts = takeWhile is_ts_char timestamp_line;
          r1 = dropWhile is_space (dropWhile is_ts_char timestamp_line)
      in if start_ts = [] then None
         else (case re_lit ''-->'' r1 of
                 None \<Rightarrow> None
               | Some r2 \<Rightarrow>
                   (let end_ts = takeWhile is_ts_char (dropWhile is_space r2)
                    in if end_ts = [] then None else Some (start_ts, end_ts))))"

text \<open>The body of the loop of \<^verbatim>\<open>parse_srt\<close>: the segment a block appends, if any.\<close>

definition block_lines :: "string \<Rightarrow> string list" where
  "block_lines block = py_split (strip block) ''\<newline>''"

definition parse_block :: "string \<Rightarrow> segment option" where
  "parse_block block =
     (let lines = block_lines block in
      if length lines < 3 then None
      else
        (let timestamp_line = lines ! 1;
             text = join '' '' (drop 2 lines)
         in case timing_match timestamp_line of
              Some (start_ts, end_ts) \<Rightarrow>
                (let start_sec = parse_timestamp start_ts;
                     end_sec = parse_timestamp end_ts;
                     duration = float_sub end_sec start_sec
                 in Some \<lparr>seg_start = start_sec, seg_end = end_sec,
                           seg_duration = duration, seg_text = strip text\<rparr>)
            | None \<Rightarrow> None))"

fun parse_blocks :: "string list \<Rightarrow> segment list" where
  "parse_blocks [] = []"
| "parse_blocks (block # blocks) =
     (case parse_block block of
        Some seg \<Rightarrow> seg # parse_blocks blocks
      | None \<Rightarrow> parse_blocks blocks)"

text \<open>\<^verbatim>\<open>parse_srt\<close>, from the text read from the file.\<close>

definition srt_blocks :: "string \<Rightarrow> string list" where
  "srt_blocks content = re_split_blank [] (strip content)"

definition parse_srt :: "string \<Rightarrow> segment list" where
  "parse_srt content = parse_blocks (srt_blocks content)"

section \<open>Style Extractor\<close>

text \<open>
  The dictionary that \<^verbatim>\<open>extract_style_elements\<close> builds has four fixed keys and is a
  record; the empty dictionary \<^verbatim>\<open>{}\<close>, which the function returns for an empty style text
  and which \<^verbatim>\<open>generate_image_prompt\<close> substitutes for \<^verbatim>\<open>None\<close>, is \<open>None\<close>.
\<close>

record style_elements =
  genre :: string
  mood :: string
  atmosphere :: string
  visual_keywords :: "string list"

definition genre_map :: "(string \<times> string) list" where
  "genre_map =
     [(''electronic'', ''neon, digital, futuristic''),
      (''synthwave'', ''retro-futuristic, neon, 80s aesthetic, purple and pink''),
      (''rock'', ''dynamic, energetic, gritty''),
      (''metal'', ''dark, intense, dramatic lighting''),
      (''jazz'', ''moody, noir, sophisticated''),
      (''classical'', ''elegant, timeless, refined''),
      (''folk'', ''natural, organic, earthy''),
      (''country'', ''rustic, americana, warm tones''),
      (''hip-hop'', ''urban, vibrant, street culture''),
      (''ambient'', ''ethereal, atmospheric, dreamlike''),
      (''trance'', ''cosmic, transcendent, flowing''),
      (''house'', ''energetic, colorful, club atmosphere''),
      (''techno'', ''industrial, minimalist, stark''),
      (''indie'', ''artistic, authentic, creative''),
      (''pop'', ''bright, colorful, polished''),
      (''soul'', ''warm, emotional, intimate''),
      (''blues'', ''moody, emotional, atmospheric''),
      (''punk'', ''raw, rebellious, high contrast''),
      (''psychedelic'', ''surreal, colorful, mind-bending''),
      (''progressive'', ''complex, layered, evolving''),
      (''cosmic'', ''space, galaxies, stars, nebulae''),
      (''cinematic'', ''dramatic, movie-quality, epic''),
      (''orchestral'', ''grand, sweeping, majestic'')]"

definition mood_keywords :: "string list" where
  "mood_keywords =
     [''dark'', ''bright'', ''moody'', ''uplifting'', ''melancholic'', ''energetic'',
      ''calm'', ''intense'', ''dreamy'', ''powerful'', ''gentle'', ''dramatic'']"

text \<open>The loop over \<^verbatim>\<open>genre_map.items()\<close>: every genre found in the style text extends
  the keywords collected so far.\<close>

fun genre_loop :: "(string \<times> string) list \<Rightarrow> string \<Rightarrow> string list \<Rightarrow> string list" where
  "genre_loop [] lower_style keywords = keywords"
| "genre_loop ((g, visual_desc) # rest) lower_style keywords =
     genre_loop rest lower_style
       (if contains lower_style g then keywords @ py_split visual_desc '', '' else keywords)"

text \<open>The loop over \<^verbatim>\<open>mood_keywords\<close>: the first word found is stored and the loop is
  left (\<^verbatim>\<open>break\<close>); \<open>m\<close> is the value of \<^verbatim>\<open>elements['mood']\<close> before the loop.\<close>

fun mood_loop :: "string list \<Rightarrow> string \<Rightarrow> string \<Rightarrow> string" where
  "mood_loop [] lower_style m = m"
| "mood_loop (w # rest) lower_style m =
     (if contains lower_style w then w else mood_loop rest lower_style m)"

definition extract_style_elements :: "string \<Rightarrow> style_elements option" where
  "extract_style_elements suno_style =
     (if suno_style = [] then None
      else
        (let lower_style = lower suno_style in
         Some \<lparr>genre = [],
               mood = mood_loop mood_keywords lower_style [],
               atmosphere = [],
               visual_keywords = genre_loop genre_map lower_style []\<rparr>))"

section \<open>Prompt Synthesizer\<close>

text \<open>
  \<^verbatim>\<open>re.sub(r'\([^)]*\)', '', s)\<close>: from the left, every opening parenthesis that has a
  closing one after it is removed together with everything up to the first closing one.
\<close>

function remove_parens :: "string \<Rightarrow> string" where
  "remove_parens [] = []"
| "remove_parens (c # cs) =
     (if c = CHR ''('' \<and> CHR '')'' \<in> set cs
      then remove_parens (tl (dropWhile (\<lambda>x. x \<noteq> CHR '')'') cs))
      else c # remove_parens cs)"
  by pat_completeness auto
termination
proof (relation "measure length")
  fix c :: char and cs :: string
  have "length (dropWhile (\<lambda>x. x \<noteq> CHR '')'') cs) \<le> length cs"
    by (rule length_dropWhile_le)
  then show "(tl (dropWhile (\<lambda>x. x \<noteq> CHR '')'') cs), c # cs) \<in> measure length"
    by simp
qed simp_all

definition structural_markers :: "string list" where
  "structural_markers =
     [''instrumental'', ''intro'', ''outro'', ''bridge'', ''solo'',
      ''break'', ''fade'', ''interlude'', ''chorus'', ''verse'', ''pre-chorus'']"

definition abstract_lyric :: string where
  "abstract_lyric = ''Abstract visual interpretation of the music''"

text \<open>The lyric line of the prompt: the cue text after the clean-up, the treatment of a
  bracketed marker and the fallback for an empty line (the first half of
  \<^verbatim>\<open>generate_image_prompt\<close>).\<close>

definition prompt_lyric :: "string \<Rightarrow> string" where
  "prompt_lyric lyric_text =
     (let lyric = strip lyric_text;
          lyric = strip (remove_parens lyric);
          lyric =
            (if prefix ''['' lyric \<and> suffix '']'' lyric
             then
               (let marker = lower (drop 1 (butlast lyric)) in
                if list_ex (\<lambda>word. contains marker word) structural_markers
                then abstract_lyric
                else capitalize marker @ '' atmosphere'')
             else lyric)
      in if lyric = [] \<or> isspace lyric then abstract_lyric else lyric)"

text \<open>\<^verbatim>\<open>generate_image_prompt\<close>. The argument \<^verbatim>\<open>suno_style\<close> is not used by the
  function.\<close>

definition generate_image_prompt ::
    "string \<Rightarrow> string \<Rightarrow> style_elements option \<Rightarrow> string \<Rightarrow> string" where
  "generate_image_prompt lyric_text suno_style elements base_style =
     (let lyric = prompt_lyric lyric_text;
          prompt_parts = [base_style];
          prompt_parts =
            (case elements of
               Some e \<Rightarrow>
                 if visual_keywords e \<noteq> []
                 then prompt_parts @ [join '', '' (take 3 (visual_keywords e))]
                 else prompt_parts
             | None \<Rightarrow> prompt_parts);
          prompt_parts =
            (case elements of
               Some e \<Rightarrow>
                 if mood e \<noteq> [] then prompt_parts @ [mood e @ '' atmosphere'']
                 else prompt_parts
             | None \<Rightarrow> prompt_parts);
          prompt_parts = prompt_parts @ [''scene depicting: '' @ lyric];
          prompt_parts =
            prompt_parts @ [''16:9 aspect ratio, high quality, cinematic composition'']
      in join '' | '' prompt_parts)"

section \<open>Pipeline Driver\<close>

record prompt_record =
  pr_sequence :: nat
  pr_start :: rat
  pr_end :: rat
  pr_duration :: rat
  pr_lyric :: string
  pr_lyric_cleaned :: string
  pr_prompt :: string
  pr_filename :: string

text \<open>The decimal digits of a number, and \<^verbatim>\<open>f"{i:03d}"\<close>: padded with zeros on the left
  to three characters, never cut.\<close>

fun decimal :: "nat \<Rightarrow> string" where
  "decimal n =
     (if n < 10 then [''0123456789'' ! n]
      else decimal (n div 10) @ [''0123456789'' ! (n mod 10)])"

declare decimal.simps [simp del]

definition format_03d :: "nat \<Rightarrow> string" where
  "format_03d i = replicate (3 - length (decimal i)) (CHR ''0'') @ decimal i"

text \<open>The loop \<^verbatim>\<open>for i, seg in enumerate(segments, 1)\<close> of \<^verbatim>\<open>main\<close>, started at \<open>i\<close>.\<close>

fun prompt_loop ::
    "nat \<Rightarrow> segment list \<Rightarrow> string \<Rightarrow> style_elements option \<Rightarrow> string \<Rightarrow> prompt_record list" where
  "prompt_loop i [] suno_style elements base_style = []"
| "prompt_loop i (seg # segments) suno_style elements base_style =
     (let prompt = generate_image_prompt (seg_text seg) suno_style elements base_style;
          cleaned_lyric = strip (remove_parens (seg_text seg))
      in \<lparr>pr_sequence = i, pr_start = seg_start seg, pr_end = seg_end seg,
           pr_duration = seg_duration seg, pr_lyric = seg_text seg,
           pr_lyric_cleaned = cleaned_lyric, pr_prompt = prompt,
           pr_filename = ''scene_'' @ format_03d i @ ''.jpg''\<rparr>
         # prompt_loop (Suc i) segments suno_style elements base_style)"

text \<open>
  \<^verbatim>\<open>main\<close> from the texts it reads to the list it stores under \<^verbatim>\<open>'segments'\<close>: the
  subtitle text, the text of the style file (\<open>None\<close> when no style file is named or the
  named one is missing) and the base style. With no segment the program leaves by
  \<^verbatim>\<open>sys.exit(1)\<close>. Printing and the metadata block of the output are left out.
\<close>

datatype exit = SysExit nat

definition main :: "string \<Rightarrow> string option \<Rightarrow> string \<Rightarrow> exit + prompt_record list" where
  "main srt_text style_text base_style =
     (let suno_style = (case style_text of Some t \<Rightarrow> strip t | None \<Rightarrow> []);
          elements = (if suno_style \<noteq> [] then extract_style_elements suno_style else None);
          segments = parse_srt srt_text
      in if segments = [] then Inl (SysExit 1)
         else Inr (prompt_loop 1 segments suno_style elements base_style))"

section \<open>The specification's notions\<close>

text \<open>The shape \<^verbatim>\<open>DD:DD:DD,DDD\<close> of the specification's section 4.1 (two digits for
  hours, minutes and seconds, three for milliseconds) and the offset it stands for,
  \<^verbatim>\<open>h*3600 + m*60 + s + ms/1000\<close>, as an exact number.\<close>

fun timestamp_shape :: "string \<Rightarrow> bool" where
  "timestamp_shape [h1, h2, c1, m1, m2, c2, s1, s2, c3, x1, x2, x3] =
     (is_digit h1 \<and> is_digit h2 \<and> c1 = CHR '':'' \<and> is_digit m1 \<and> is_digit m2 \<and>
      c2 = CHR '':'' \<and> is_digit s1 \<and> is_digit s2 \<and> c3 = CHR '','' \<and>
      is_digit x1 \<and> is_digit x2 \<and> is_digit x3)"
| "timestamp_shape _ = False"

fun timestamp_value :: "string \<Rightarrow> rat" where
  "timestamp_value [h1, h2, c1, m1, m2, c2, s1, s2, c3, x1, x2, x3] =
     (let h = 10 * digit_val h1 + digit_val h2;
          m = 10 * digit_val m1 + digit_val m2;
          s = 10 * digit_val s1 + digit_val s2;
          ms = 100 * digit_val x1 + 10 * digit_val x2 + digit_val x3
      in of_int (h * 3600 + m * 60 + s) + of_int ms / 1000)"
| "timestamp_value _ = 0"

text \<open>The same offset as Python's floats evaluate it: the quotient \<^verbatim>\<open>ms/1000\<close> is rounded
  to a double, and so is the sum of the whole seconds and this quotient.\<close>

fun timestamp_float :: "string \<Rightarrow> rat" where
  "timestamp_float [h1, h2, c1, m1, m2, c2, s1, s2, c3, x1, x2, x3] =
     (let h = 10 * digit_val h1 + digit_val h2;
          m = 10 * digit_val m1 + digit_val m2;
          s = 10 * digit_val s1 + digit_val s2;
          ms = 100 * digit_val x1 + 10 * digit_val x2 + digit_val x3
      in float_add (of_int (h * 3600 + m * 60 + s)) (float_div (of_int ms) 1000))"
| "timestamp_float _ = 0"

text \<open>A timing line of the form \<^verbatim>\<open>timestamp --> timestamp\<close> in its most lenient
  reading: the line starts with a timestamp of the shape above, the arrow follows with
  any whitespace around it, and a second timestamp follows the arrow.\<close>

definition spec_timing_form :: "string \<Rightarrow> bool" where
  "spec_timing_form l =
     (timestamp_shape (take 12 l) \<and>
      (let r = dropWhile is_space (drop 12 l)
       in prefix ''-->'' r \<and> timestamp_shape (take 12 (dropWhile is_space (drop 3 r)))))"

text \<open>What the timing pattern of the segmenter accepts: the line starts with a run of
  digits, colons and commas, whitespace, the arrow, whitespace, and a second such run;
  neither run is empty.\<close>

definition loose_timing_form :: "string \<Rightarrow> bool" where
  "loose_timing_form l =
     (\<exists>a w1 w2 b rest.
        l = a @ w1 @ ''-->'' @ w2 @ b @ rest \<and>
        a \<noteq> [] \<and> list_all is_ts_char a \<and> list_all is_space w1 \<and>
        list_all is_space w2 \<and> b \<noteq> [] \<and> list_all is_ts_char b)"

section \<open>Sample documents\<close>

text \<open>Two cues, \<^verbatim>\<open>Hello world\<close> and \<^verbatim>\<open>(oohs) [Bridge]\<close>.\<close>

definition sample_srt :: string where
  "sample_srt =
     ''1\<newline>00:00:00,000 --> 00:00:02,000\<newline>Hello world\<newline>\<newline>2\<newline>00:00:02,000 --> 00:00:04,500\<newline>(oohs) [Bridge]\<newline>''"

text \<open>One cue whose timing line holds two numbers that are no timestamps.\<close>

definition sample_loose :: string where
  "sample_loose = ''1\<newline>1 --> 2\<newline>Hi''"

text \<open>One cue that ends before it starts.\<close>

definition sample_inverted :: string where
  "sample_inverted = ''1\<newline>00:00:05,000 --> 00:00:02,000\<newline>Hi''"

text \<open>The records the driver builds for the first sample, without a style file and with
  the base style \<^verbatim>\<open>photorealistic\<close>.\<close>

definition sample_records :: "prompt_record list" where
  "sample_records = prompt_loop 1 (parse_srt sample_srt) [] None ''photorealistic''"

section \<open>Floating point: properties\<close>

lemma floor_rat_numeral_div:
  "\<lfloor>numeral a / numeral b :: rat\<rfloor> = numeral a div numeral b"
  by (metis floor_divide_of_int_eq of_int_numeral)

lemma floor_rat_minus_numeral_div:
  "\<lfloor>- (numeral a / numeral b) :: rat\<rfloor> = - numeral a div numeral b"
  by (metis divide_minus_left floor_divide_of_int_eq of_int_neg_numeral of_int_numeral)

text \<open>The equations that evaluate a float operation on numerals.\<close>

lemmas float_defs = float_div_def float_add_def float_sub_def round_double_def round_even_def
  scale53.simps floor_rat_numeral_div floor_rat_minus_numeral_div

lemma round_even_nonneg: "0 \<le> y \<Longrightarrow> 0 \<le> round_even y"
  by (simp add: round_even_def)

lemma round_even_close: "\<bar>of_int (round_even y) - y\<bar> \<le> 1 / 2"
proof -
  have "of_int \<lfloor>y\<rfloor> \<le> y" "y < of_int \<lfloor>y\<rfloor> + 1" by linarith+
  then show ?thesis by (auto simp: round_even_def)
qed

lemma scale53_nonpos: "a \<le> 0 \<Longrightarrow> scale53 a p = (a, p)"
  by (simp add: scale53.simps [of a p])

text \<open>Scaling keeps the ratio of its two arguments and ends in the interval it aims at.\<close>

lemma scale53_ratio:
  "0 < p \<Longrightarrow> scale53 a p = (y, q) \<Longrightarrow> 0 < q \<and> y * p = a * q"
proof (induction a p arbitrary: y q rule: scale53.induct)
  case (1 a p)
  show ?case
  proof (cases "0 < a \<and> a < 2 ^ 52")
    case True
    with "1.prems" have "scale53 (2 * a) (2 * p) = (y, q)"
      by (simp add: scale53.simps [of a p])
    with "1.IH"(1) [OF True, of y q] "1.prems"(1) show ?thesis by simp
  next
    case False
    show ?thesis
    proof (cases "2 ^ 53 \<le> a")
      case True
      with False "1.prems" have "scale53 (a / 2) (p / 2) = (y, q)"
        by (simp add: scale53.simps [of a p])
      with "1.IH"(2) [OF False True, of y q] "1.prems"(1) show ?thesis by simp
    next
      case b: False
      from False b have "scale53 a p = (a, p)"
        by (simp only: scale53.simps [of a p] if_False)
      with "1.prems" show ?thesis by simp
    qed
  qed
qed

lemma scale53_range:
  "0 < a \<Longrightarrow> scale53 a p = (y, q) \<Longrightarrow> 2 ^ 52 \<le> y \<and> y < 2 ^ 53"
proof (induction a p arbitrary: y q rule: scale53.induct)
  case (1 a p)
  show ?case
  proof (cases "0 < a \<and> a < 2 ^ 52")
    case True
    with "1.prems" have "scale53 (2 * a) (2 * p) = (y, q)"
      by (simp add: scale53.simps [of a p])
    with "1.IH"(1) [OF True, of y q] "1.prems"(1) show ?thesis by simp
  next
    case False
    show ?thesis
    proof (cases "2 ^ 53 \<le> a")
      case True
      with False "1.prems" have "scale53 (a / 2) (p / 2) = (y, q)"
        by (simp add: scale53.simps [of a p])
      with "1.IH"(2) [OF False True, of y q] "1.prems"(1) show ?thesis by simp
    next
      case b: False
      from False b have "scale53 a p = (a, p)"
        by (simp only: scale53.simps [of a p] if_False)
      with "1.prems" False b show ?thesis by auto
    qed
  qed
qed

lemma round_double_zero: "round_double 0 = 0"
  by (simp add: round_double_def scale53_nonpos)

lemma round_double_nonneg:
  assumes "0 \<le> x"
  shows "0 \<le> round_double x"
proof -
  obtain y q where s: "scale53 x 1 = (y, q)" by (cases "scale53 x 1") auto
  from scale53_ratio [OF _ s] have q: "0 < q" and y: "y = x * q" by simp_all
  from y q assms have "0 \<le> y" by simp
  then have "0 \<le> round_even y" by (rule round_even_nonneg)
  then have "0 \<le> sgn x * of_int (round_even y) / q"
    using assms q by (simp add: sgn_if)
  moreover have "round_double x = sgn x * of_int (round_even y) / q"
    using assms by (simp only: round_double_def abs_of_nonneg s prod.case)
  ultimately show ?thesis by simp
qed

text \<open>Rounding moves a number that is not negative by at most the fraction \<^verbatim>\<open>2^-53\<close> of
  itself.\<close>

lemma round_double_close:
  assumes "0 \<le> x"
  shows "\<bar>round_double x - x\<bar> \<le> x / 2 ^ 53"
proof (cases "x = 0")
  case True
  then show ?thesis by (simp add: round_double_zero)
next
  case False
  with assms have x: "0 < x" by simp
  obtain y q where s: "scale53 x 1 = (y, q)" by (cases "scale53 x 1") auto
  from scale53_ratio [OF _ s] have q: "0 < q" and y: "y = x * q" by simp_all
  from scale53_range [OF x s] have r: "2 ^ 52 \<le> y" by simp
  have "round_double x = sgn x * of_int (round_even y) / q"
    using assms by (simp only: round_double_def abs_of_nonneg s prod.case)
  then have rd: "round_double x = of_int (round_even y) / q"
    using x by simp
  have "round_double x - x = (of_int (round_even y) - y) / q"
    using q by (simp add: rd y field_simps)
  then have "\<bar>round_double x - x\<bar> = \<bar>of_int (round_even y) - y\<bar> / q"
    using q by simp
  also have "\<dots> \<le> (1 / 2) / q"
    by (rule divide_right_mono [OF round_even_close]) (use q in simp)
  also have "\<dots> \<le> x / 2 ^ 53"
  proof -
    from r y have "2 ^ 52 \<le> x * q" by simp
    with q show ?thesis by (simp add: field_simps)
  qed
  finally show ?thesis .
qed

section \<open>Timestamp Parser: properties\<close>

lemma digit_val_range: "is_digit c \<Longrightarrow> 0 \<le> digit_val c \<and> digit_val c \<le> 9"
  by (auto simp: is_digit_def digit_val_def)

lemma re_digits_2_Some:
  "re_digits 2 t = Some (g, r) \<Longrightarrow> \<exists>a b. t = a # b # r \<and> g = [a, b] \<and> is_digit a \<and> is_digit b"
proof -
  assume m: "re_digits 2 t = Some (g, r)"
  then have len: "2 \<le> length t" by (simp add: re_digits_def split: if_splits)
  then obtain a b u where t: "t = a # b # u"
    by (cases t; cases "tl t") auto
  with m show ?thesis by (auto simp: re_digits_def split: if_splits)
qed

lemma re_digits_3_Some:
  "re_digits 3 t = Some (g, r) \<Longrightarrow>
     \<exists>a b c. t = a # b # c # r \<and> g = [a, b, c] \<and> is_digit a \<and> is_digit b \<and> is_digit c"
proof -
  assume m: "re_digits 3 t = Some (g, r)"
  then have len: "3 \<le> length t" by (simp add: re_digits_def split: if_splits)
  then obtain a b c u where t: "t = a # b # c # u"
    by (cases t; cases "tl t"; cases "tl (tl t)") auto
  with m show ?thesis by (auto simp: re_digits_def split: if_splits)
qed

lemma re_lit_1_Some: "re_lit [c] t = Some r \<Longrightarrow> t = c # r"
  by (cases t) (auto simp: re_lit_def split: if_splits)

text \<open>A match of the timestamp pattern fixes the first twelve characters of the text.\<close>

lemma time_match_Some:
  assumes "time_match t = Some (h, m, s, ms)"
  shows "\<exists>h1 h2 m1 m2 s1 s2 x1 x2 x3 rest.
           t = [h1, h2, CHR '':'', m1, m2, CHR '':'', s1, s2, CHR '','', x1, x2, x3] @ rest \<and>
           is_digit h1 \<and> is_digit h2 \<and> is_digit m1 \<and> is_digit m2 \<and> is_digit s1 \<and>
           is_digit s2 \<and> is_digit x1 \<and> is_digit x2 \<and> is_digit x3 \<and>
           h = [h1, h2] \<and> m = [m1, m2] \<and> s = [s1, s2] \<and> ms = [x1, x2, x3]"
proof -
  from assms obtain r1 r2 r3 r4 r5 r6 r7 where
    a: "re_digits 2 t = Some (h, r1)" and b: "re_lit '':'' r1 = Some r2" and
    c: "re_digits 2 r2 = Some (m, r3)" and d: "re_lit '':'' r3 = Some r4" and
    e: "re_digits 2 r4 = Some (s, r5)" and f: "re_lit '','' r5 = Some r6" and
    g: "re_digits 3 r6 = Some (ms, r7)"
    by (auto simp: time_match_def split: option.splits)
  from re_digits_2_Some [OF a] re_lit_1_Some [OF b] re_digits_2_Some [OF c]
    re_lit_1_Some [OF d] re_digits_2_Some [OF e] re_lit_1_Some [OF f]
    re_digits_3_Some [OF g]
  show ?thesis by auto
qed

lemma time_match_shape:
  assumes "is_digit h1" "is_digit h2" "is_digit m1" "is_digit m2" "is_digit s1"
    "is_digit s2" "is_digit x1" "is_digit x2" "is_digit x3"
  shows "time_match ([h1, h2, CHR '':'', m1, m2, CHR '':'', s1, s2, CHR '','', x1, x2, x3] @ rest)
           = Some ([h1, h2], [m1, m2], [s1, s2], [x1, x2, x3])"
  using assms by (simp add: time_match_def re_digits_def re_lit_def)

text \<open>On a text that starts with a timestamp of the shape, the parser computes the float
  value of that timestamp.\<close>

lemma parse_timestamp_shape:
  assumes "timestamp_shape p"
  shows "parse_timestamp (p @ rest) = timestamp_float p"
proof -
  from assms obtain h1 h2 m1 m2 s1 s2 x1 x2 x3 where
    p: "p = [h1, h2, CHR '':'', m1, m2, CHR '':'', s1, s2, CHR '','', x1, x2, x3]" and
    d: "is_digit h1" "is_digit h2" "is_digit m1" "is_digit m2" "is_digit s1"
       "is_digit s2" "is_digit x1" "is_digit x2" "is_digit x3"
    by (auto elim!: timestamp_shape.elims(2))
  from d have "time_match (p @ rest) = Some ([h1, h2], [m1, m2], [s1, s2], [x1, x2, x3])"
    unfolding p by (rule time_match_shape)
  then show ?thesis
    by (simp add: parse_timestamp_def p int_of_digits_def)
qed

lemma parse_timestamp_no_shape:
  assumes "\<not> timestamp_shape (take 12 t)"
  shows "parse_timestamp t = 0"
proof (cases "time_match t")
  case None
  then show ?thesis by (simp add: parse_timestamp_def)
next
  case (Some g)
  obtain h m s ms where "g = (h, m, s, ms)" by (cases g) auto
  with Some have "time_match t = Some (h, m, s, ms)" by simp
  from time_match_Some [OF this] have "timestamp_shape (take 12 t)" by auto
  with assms show ?thesis by simp
qed

text \<open>The float value of a timestamp is not negative and lies within \<^verbatim>\<open>2^-34\<close> of the
  exact one.\<close>

lemma timestamp_float_close:
  assumes "timestamp_shape p"
  shows "0 \<le> timestamp_float p \<and> \<bar>timestamp_float p - timestamp_value p\<bar> \<le> 1 / 2 ^ 34"
proof -
  from assms obtain h1 h2 m1 m2 s1 s2 x1 x2 x3 where
    p: "p = [h1, h2, CHR '':'', m1, m2, CHR '':'', s1, s2, CHR '','', x1, x2, x3]" and
    d: "is_digit h1" "is_digit h2" "is_digit m1" "is_digit m2" "is_digit s1"
       "is_digit s2" "is_digit x1" "is_digit x2" "is_digit x3"
    by (auto elim!: timestamp_shape.elims(2))
  define n where "n = (10 * digit_val h1 + digit_val h2) * 3600 +
     (10 * digit_val m1 + digit_val m2) * 60 + (10 * digit_val s1 + digit_val s2)"
  define ms where "ms = 100 * digit_val x1 + 10 * digit_val x2 + digit_val x3"
  define q where "q = (of_int ms :: rat) / 1000"
  define q' where "q' = round_double q"
  have n: "0 \<le> n" "n \<le> 362439"
    using digit_val_range [OF d(1)] digit_val_range [OF d(2)] digit_val_range [OF d(3)]
      digit_val_range [OF d(4)] digit_val_range [OF d(5)] digit_val_range [OF d(6)]
    unfolding n_def by (simp_all add: algebra_simps)
  have ms: "0 \<le> ms" "ms \<le> 999"
    using digit_val_range [OF d(7)] digit_val_range [OF d(8)] digit_val_range [OF d(9)]
    unfolding ms_def by (simp_all add: algebra_simps)
  have nr: "(0::rat) \<le> of_int n" "(of_int n :: rat) \<le> 362439"
    using n by (simp_all add: of_int_le_iff [of _ 362439, simplified])
  have msr: "(0::rat) \<le> of_int ms" "(of_int ms :: rat) \<le> 999"
    using ms by (simp_all add: of_int_le_iff [of _ 999, simplified])
  have q: "0 \<le> q" "q \<le> 1" using msr by (simp_all add: q_def)
  have q'0: "0 \<le> q'" unfolding q'_def using q(1) by (rule round_double_nonneg)
  have "\<bar>q' - q\<bar> \<le> q / 2 ^ 53"
    unfolding q'_def using q(1) by (rule round_double_close)
  also have "\<dots> \<le> 1 / 2 ^ 53" using q(2) by (simp add: divide_right_mono)
  finally have e1: "\<bar>q' - q\<bar> \<le> 1 / 2 ^ 53" .
  have "(1::rat) / 2 ^ 53 \<le> 1" by simp
  with e1 q(2) have q'1: "q' \<le> 2" by linarith
  define t where "t = of_int n + q'"
  have t: "0 \<le> t" "t \<le> 362441" using nr q'0 q'1 by (simp_all add: t_def)
  have "\<bar>round_double t - t\<bar> \<le> t / 2 ^ 53"
    using t(1) by (rule round_double_close)
  also have "\<dots> \<le> 362441 / 2 ^ 53" using t(2) by (simp add: divide_right_mono)
  finally have e2: "\<bar>round_double t - t\<bar> \<le> 362441 / 2 ^ 53" .
  have f: "timestamp_float p = round_double t"
    by (simp add: p t_def q'_def q_def n_def ms_def float_add_def float_div_def)
  have v: "timestamp_value p = of_int n + q"
    by (simp add: p q_def n_def ms_def)
  have "\<bar>timestamp_float p - timestamp_value p\<bar> \<le> \<bar>round_double t - t\<bar> + \<bar>q' - q\<bar>"
    unfolding f v t_def by linarith
  also have "\<dots> \<le> 362441 / 2 ^ 53 + 1 / 2 ^ 53" using e1 e2 by linarith
  also have "\<dots> \<le> 1 / 2 ^ 34" by simp
  finally have "\<bar>timestamp_float p - timestamp_value p\<bar> \<le> 1 / 2 ^ 34" .
  moreover have "0 \<le> timestamp_float p"
    unfolding f using t(1) by (rule round_double_nonneg)
  ultimately show ?thesis by simp
qed

lemma parse_timestamp_nonneg: "0 \<le> parse_timestamp t"
proof (cases "timestamp_shape (take 12 t)")
  case True
  from parse_timestamp_shape [OF True, of "drop 12 t"] timestamp_float_close [OF True]
  show ?thesis by simp
next
  case False
  then show ?thesis by (simp add: parse_timestamp_no_shape)
qed

text \<open>Float operations on the numbers of the examples and sample documents.\<close>

lemma float_evals:
  "float_div 0 1000 = 0" "float_div 500 1000 = 1 / 2" "float_div 250 1000 = 1 / 4"
  "float_add 0 0 = 0" "float_add 1 0 = 1" "float_add 2 0 = 2" "float_add 5 0 = 5"
  "float_add 4 (1 / 2) = 9 / 2" "float_add 2 (1 / 2) = 5 / 2" "float_add 2 (1 / 4) = 9 / 4"
  "float_add 90 (1 / 2) = 181 / 2"
  "float_sub 0 0 = 0" "float_sub 2 0 = 2" "float_sub (9 / 2) 2 = 5 / 2"
  "float_sub (5 / 2) 1 = 3 / 2" "float_sub 2 5 = - 3"
  by (simp_all add: float_defs)

lemma parse_timestamp_90_5: "parse_timestamp (''00:01:30,500'' @ rest) = 181 / 2"
proof -
  have s: "timestamp_shape ''00:01:30,500''" by (simp add: is_digit_def)
  have "timestamp_float ''00:01:30,500'' = float_add 90 (float_div 500 1000)"
    by (simp add: digit_val_def)
  also have "\<dots> = 181 / 2" by (simp add: float_evals)
  finally have "timestamp_float ''00:01:30,500'' = 181 / 2" .
  with parse_timestamp_shape [OF s, of rest] show ?thesis by (rule trans)
qed

text \<open>
  Claim C6, as the specification states it, fails: the parser computes in floats, and the
  float value of \<^verbatim>\<open>00:00:01,118\<close> is not the number 1.118 (Python prints it as
  \<^verbatim>\<open>1.1179999999999999\<close>).
\<close>

theorem parse_timestamp_rounding_counterexample:
  "timestamp_shape ''00:00:01,118'' \<and>
   timestamp_value ''00:00:01,118'' = 559 / 500 \<and>
   parse_timestamp ''00:00:01,118'' = 2517512191700107 / 2251799813685248 \<and>
   parse_timestamp ''00:00:01,118'' \<noteq> timestamp_value ''00:00:01,118''"
proof -
  have a: "timestamp_shape ''00:00:01,118''" by (simp add: is_digit_def)
  have b: "timestamp_value ''00:00:01,118'' = 559 / 500" by (simp add: digit_val_def)
  have "timestamp_float ''00:00:01,118'' = float_add 1 (float_div 118 1000)"
    by (simp add: digit_val_def)
  also have "\<dots> = 2517512191700107 / 2251799813685248"
    by (simp add: float_defs)
  finally have "timestamp_float ''00:00:01,118'' = 2517512191700107 / 2251799813685248" .
  with parse_timestamp_shape [OF a, of "[]"]
  have "parse_timestamp (''00:00:01,118'' @ []) = 2517512191700107 / 2251799813685248"
    by (rule trans)
  then have c: "parse_timestamp ''00:00:01,118'' = 2517512191700107 / 2251799813685248"
    by simp
  show ?thesis unfolding b c using a by simp
qed

text \<open>
  Claim C6, amended. For every text of the shape \<^verbatim>\<open>DD:DD:DD,DDD\<close> the Timestamp Parser
  returns \<^verbatim>\<open>h*3600 + m*60 + s + ms/1000\<close> as Python's floats evaluate it: the quotient
  rounded to the nearest double, then the sum rounded to the nearest double. The result
  lies within \<^verbatim>\<open>2^-34\<close> of the exact offset; the text \<^verbatim>\<open>00:01:30,500\<close> parses to 90.5.
\<close>

theorem parse_timestamp_float_value:
  "(timestamp_shape t \<longrightarrow>
      parse_timestamp t = timestamp_float t \<and>
      \<bar>parse_timestamp t - timestamp_value t\<bar> \<le> 1 / 2 ^ 34) \<and>
   parse_timestamp ''00:01:30,500'' = 181 / 2"
proof
  show "timestamp_shape t \<longrightarrow>
      parse_timestamp t = timestamp_float t \<and>
      \<bar>parse_timestamp t - timestamp_value t\<bar> \<le> 1 / 2 ^ 34"
    using parse_timestamp_shape [of t "[]"] timestamp_float_close [of t] by simp
  from parse_timestamp_90_5 [of "[]"]
  show "parse_timestamp ''00:01:30,500'' = 181 / 2" by simp
qed

theorem parse_timestamp_float_value_witness:
  "timestamp_shape ''12:34:56,789'' \<and>
   parse_timestamp ''12:34:56,789'' = 6225543275802001 / 137438953472 \<and>
   timestamp_value ''12:34:56,789'' = 45296789 / 1000 \<and>
   \<bar>parse_timestamp ''12:34:56,789'' - timestamp_value ''12:34:56,789''\<bar> \<le> 1 / 2 ^ 34"
proof -
  have a: "timestamp_shape ''12:34:56,789''" by (simp add: is_digit_def)
  have "timestamp_float ''12:34:56,789'' = float_add 45296 (float_div 789 1000)"
    by (simp add: digit_val_def)
  also have "\<dots> = 6225543275802001 / 137438953472"
    by (simp add: float_defs)
  finally have b: "timestamp_float ''12:34:56,789'' = 6225543275802001 / 137438953472" .
  have c: "timestamp_value ''12:34:56,789'' = 45296789 / 1000" by (simp add: digit_val_def)
  from a parse_timestamp_float_value [of "''12:34:56,789''"]
  have d: "parse_timestamp ''12:34:56,789'' = timestamp_float ''12:34:56,789''"
    and e: "\<bar>parse_timestamp ''12:34:56,789'' - timestamp_value ''12:34:56,789''\<bar> \<le> 1 / 2 ^ 34"
    by blast+
  from a b c d e show ?thesis by (simp only: simp_thms)
qed

text \<open>
  Claim C3, as the specification states it, fails: a text that is longer than the shape
  \<^verbatim>\<open>DD:DD:DD,DDD\<close> and starts with it does not have the shape, and yet parses to the
  offset of its first twelve characters.
\<close>

theorem parse_timestamp_trailing_counterexample:
  "\<not> timestamp_shape ''00:01:30,500xyz'' \<and> parse_timestamp ''00:01:30,500xyz'' \<noteq> 0"
proof -
  from parse_timestamp_90_5 [of "''xyz''"]
  have "parse_timestamp ''00:01:30,500xyz'' = 181 / 2" by simp
  then show ?thesis by simp
qed

text \<open>
  Claim C3, amended. For every text whose first twelve characters do not have the shape
  \<^verbatim>\<open>DD:DD:DD,DDD\<close> the Timestamp Parser returns 0. The parser is a total function: it
  has no failing branch.
\<close>

theorem parse_timestamp_malformed:
  "\<not> timestamp_shape (take 12 t) \<Longrightarrow> parse_timestamp t = 0"
  by (rule parse_timestamp_no_shape)

theorem parse_timestamp_malformed_witness:
  "\<not> timestamp_shape (take 12 ''00-01-30.500 and more'') \<and>
   parse_timestamp ''00-01-30.500 and more'' = 0 \<and>
   \<not> timestamp_shape (take 12 ''1:2:3'') \<and> parse_timestamp ''1:2:3'' = 0"
proof -
  have a: "\<not> timestamp_shape (take 12 ''00-01-30.500 and more'')" by simp
  have b: "\<not> timestamp_shape (take 12 ''1:2:3'')" by simp
  from a b parse_timestamp_malformed [OF a] parse_timestamp_malformed [OF b]
  show ?thesis by simp
qed

text \<open>
  Claim C10. The Timestamp Parser looks at a prefix only: a text whose first twelve
  characters have the shape \<^verbatim>\<open>DD:DD:DD,DDD\<close> parses to the offset of these twelve
  characters, whatever follows them. The texts \<^verbatim>\<open>00:01:30,500xyz\<close> and
  \<^verbatim>\<open>00:01:30,5009\<close> do not have the shape as a whole, and both parse to 90.5.
\<close>

theorem parse_timestamp_prefix:
  "(timestamp_shape (take 12 t) \<longrightarrow>
      parse_timestamp t = timestamp_float (take 12 t) \<and>
      parse_timestamp t = parse_timestamp (take 12 t)) \<and>
   \<not> timestamp_shape ''00:01:30,500xyz'' \<and> parse_timestamp ''00:01:30,500xyz'' = 181 / 2 \<and>
   \<not> timestamp_shape ''00:01:30,5009'' \<and> parse_timestamp ''00:01:30,5009'' = 181 / 2"
proof -
  have gen: "parse_timestamp u = timestamp_float (take 12 u) \<and>
             parse_timestamp u = parse_timestamp (take 12 u)"
    if "timestamp_shape (take 12 u)" for u
    using parse_timestamp_shape [OF that, of "drop 12 u"]
      parse_timestamp_shape [OF that, of "[]"] by simp
  from parse_timestamp_90_5 [of "''xyz''"]
  have x: "parse_timestamp ''00:01:30,500xyz'' = 181 / 2" by simp
  from parse_timestamp_90_5 [of "''9''"]
  have y: "parse_timestamp ''00:01:30,5009'' = 181 / 2" by simp
  have n: "\<not> timestamp_shape ''00:01:30,500xyz''" "\<not> timestamp_shape ''00:01:30,5009''"
    by simp_all
  from gen [of t] x y n show ?thesis by blast
qed

theorem parse_timestamp_prefix_witness:
  "timestamp_shape (take 12 ''00:00:02,250 --> later'') \<and>
   parse_timestamp ''00:00:02,250 --> later'' = 9 / 4"
proof -
  have a: "timestamp_shape (take 12 ''00:00:02,250 --> later'')" by (simp add: is_digit_def)
  have "timestamp_float (take 12 ''00:00:02,250 --> later'') = float_add 2 (float_div 250 1000)"
    by (simp add: digit_val_def)
  also have "\<dots> = 9 / 4" by (simp add: float_evals)
  finally have b: "timestamp_float (take 12 ''00:00:02,250 --> later'') = 9 / 4" .
  from a parse_timestamp_prefix [of "''00:00:02,250 --> later''"]
  have "parse_timestamp ''00:00:02,250 --> later'' =
      timestamp_float (take 12 ''00:00:02,250 --> later'')" by blast
  with a b show ?thesis by (simp only: simp_thms)
qed

section \<open>Subtitle Segmenter: properties\<close>

text \<open>The three character classes of the timing pattern do not overlap, which is why its
  greedy runs have one way to match only.\<close>

lemma space_chars_not_ts:
  "\<forall>c \<in> set [CHR 0x09, CHR 0x0A, CHR 0x0B, CHR 0x0C, CHR 0x0D,
       CHR 0x1C, CHR 0x1D, CHR 0x1E, CHR 0x1F, CHR 0x20, CHR 0x85, CHR 0xA0]. \<not> is_ts_char c"
  by (simp add: is_ts_char_def is_digit_def)

lemma ts_char_not_space: "is_ts_char c \<Longrightarrow> \<not> is_space c"
  unfolding is_space_def using space_chars_not_ts by blast


lemma dash_not_ts_char: "\<not> is_ts_char (CHR ''-'')"
  by (simp add: is_ts_char_def is_digit_def)

lemma dash_not_space: "\<not> is_space (CHR ''-'')"
  by (simp add: is_space_def)

lemma takeWhile_all: "list_all P xs \<Longrightarrow> takeWhile P (xs @ ys) = xs @ takeWhile P ys"
  by (simp add: list_all_iff)

lemma dropWhile_all: "list_all P xs \<Longrightarrow> dropWhile P (xs @ ys) = dropWhile P ys"
  by (simp add: list_all_iff)

text \<open>The timing pattern accepts exactly the lines of the loose form, and its second
  group is the longest run at its place.\<close>

lemma timing_match_complete:
  assumes l: "l = a @ w1 @ ''-->'' @ w2 @ b @ rest"
    and a: "a \<noteq> []" "list_all is_ts_char a"
    and w: "list_all is_space w1" "list_all is_space w2"
    and b: "b \<noteq> []" "list_all is_ts_char b"
  shows "timing_match l = Some (a, b @ takeWhile is_ts_char rest)"
proof -
  have stop1: "takeWhile is_ts_char (w1 @ ''-->'' @ w2 @ b @ rest) = []"
  proof (cases w1)
    case Nil
    then show ?thesis by (simp add: dash_not_ts_char)
  next
    case (Cons x xs)
    with w(1) have "is_space x" by simp
    then have "\<not> is_ts_char x" using ts_char_not_space by blast
    with Cons show ?thesis by simp
  qed
  then have skip1: "dropWhile is_ts_char (w1 @ ''-->'' @ w2 @ b @ rest) = w1 @ ''-->'' @ w2 @ b @ rest"
    by (metis append_Nil takeWhile_dropWhile_id)
  have g1: "takeWhile is_ts_char l = a"
    unfolding l using a(2) stop1 by (simp only: takeWhile_all append_Nil2)
  have d1: "dropWhile is_ts_char l = w1 @ ''-->'' @ w2 @ b @ rest"
    unfolding l using a(2) skip1 by (simp only: dropWhile_all)
  have "dropWhile is_space (''-->'' @ w2 @ b @ rest) = ''-->'' @ w2 @ b @ rest"
    by (simp add: dash_not_space)
  then have r1: "dropWhile is_space (dropWhile is_ts_char l) = ''-->'' @ w2 @ b @ rest"
    unfolding d1 using w(1) by (simp only: dropWhile_all)
  obtain y ys where b': "b = y # ys" using b(1) by (cases b) auto
  with b(2) have "is_ts_char y" by simp
  then have "\<not> is_space y" by (rule ts_char_not_space)
  then have "dropWhile is_space (b @ rest) = b @ rest" by (simp add: b')
  then have r3: "dropWhile is_space (w2 @ b @ rest) = b @ rest"
    using w(2) by (simp only: dropWhile_all)
  have g2: "takeWhile is_ts_char (b @ rest) = b @ takeWhile is_ts_char rest"
    using b(2) by (simp only: takeWhile_all)
  have lit: "re_lit ''-->'' (''-->'' @ w2 @ b @ rest) = Some (w2 @ b @ rest)"
    by (simp add: re_lit_def)
  show ?thesis
    unfolding timing_match_def Let_def g1 r1 lit
    using a(1) b(1) by (simp add: r3 g2)
qed
lemma timing_match_sound:
  assumes "timing_match l = Some (a, b)"
  shows "\<exists>w1 w2 rest. l = a @ w1 @ ''-->'' @ w2 @ b @ rest \<and>
           a \<noteq> [] \<and> list_all is_ts_char a \<and> list_all is_space w1 \<and>
           list_all is_space w2 \<and> b \<noteq> [] \<and> list_all is_ts_char b \<and>
           a = takeWhile is_ts_char l"
proof -
  define r1 where "r1 = dropWhile is_space (dropWhile is_ts_char l)"
  define w1 where "w1 = takeWhile is_space (dropWhile is_ts_char l)"
  from assms obtain r2 where
    a: "a = takeWhile is_ts_char l" "a \<noteq> []" and r2: "re_lit ''-->'' r1 = Some r2" and
    b: "b = takeWhile is_ts_char (dropWhile is_space r2)" "b \<noteq> []"
    by (auto simp: timing_match_def Let_def r1_def split: if_splits option.splits)
  from r2 have r1: "r1 = ''-->'' @ r2"
    by (auto simp: re_lit_def prefix_def split: if_splits)
  define w2 where "w2 = takeWhile is_space r2"
  define rest where "rest = dropWhile is_ts_char (dropWhile is_space r2)"
  have "l = a @ dropWhile is_ts_char l" by (simp add: a(1))
  also have "dropWhile is_ts_char l = w1 @ r1" by (simp add: w1_def r1_def)
  also have "r1 = ''-->'' @ w2 @ b @ rest"
    unfolding r1 w2_def b(1) rest_def by simp
  finally have "l = a @ w1 @ ''-->'' @ w2 @ b @ rest" .
  moreover have "list_all is_ts_char a" "list_all is_ts_char b"
    "list_all is_space w1" "list_all is_space w2"
    by (auto simp: a(1) b(1) w1_def w2_def list_all_iff dest: set_takeWhileD)
  ultimately show ?thesis using a b by blast
qed

lemma timing_match_iff: "(timing_match l \<noteq> None) = loose_timing_form l"
proof
  assume "timing_match l \<noteq> None"
  then obtain a b where "timing_match l = Some (a, b)" by auto
  from timing_match_sound [OF this] show "loose_timing_form l"
    unfolding loose_timing_form_def by blast
next
  assume "loose_timing_form l"
  then obtain a w1 w2 b rest where "l = a @ w1 @ ''-->'' @ w2 @ b @ rest"
    "a \<noteq> []" "list_all is_ts_char a" "list_all is_space w1" "list_all is_space w2"
    "b \<noteq> []" "list_all is_ts_char b"
    unfolding loose_timing_form_def by blast
  from timing_match_complete [OF this] show "timing_match l \<noteq> None" by simp
qed


text \<open>Two timestamps of the specification's shape around an arrow are a line of the
  loose form.\<close>

lemma timestamp_shape_ts_chars: "timestamp_shape p \<Longrightarrow> p \<noteq> [] \<and> list_all is_ts_char p"
  by (auto elim!: timestamp_shape.elims(2) simp: is_ts_char_def)

lemma spec_form_is_loose:
  assumes "spec_timing_form l"
  shows "loose_timing_form l"
proof -
  define r where "r = dropWhile is_space (drop 12 l)"
  define w1 where "w1 = takeWhile is_space (drop 12 l)"
  define w2 where "w2 = takeWhile is_space (drop 3 r)"
  define b where "b = take 12 (dropWhile is_space (drop 3 r))"
  define rest where "rest = drop 12 (dropWhile is_space (drop 3 r))"
  from assms have sa: "timestamp_shape (take 12 l)" and pr: "prefix ''-->'' r"
    and sb: "timestamp_shape b"
    by (simp_all add: spec_timing_form_def r_def b_def Let_def)
  from pr have "r = ''-->'' @ drop 3 r" by (auto simp: prefix_def)
  moreover have "drop 3 r = w2 @ b @ rest" by (simp add: w2_def b_def rest_def)
  moreover have "drop 12 l = w1 @ r" by (simp add: w1_def r_def)
  moreover have "l = take 12 l @ drop 12 l" by simp
  ultimately have "l = take 12 l @ w1 @ ''-->'' @ w2 @ b @ rest" by metis
  moreover have "list_all is_space w1" "list_all is_space w2"
    by (auto simp: w1_def w2_def list_all_iff dest: set_takeWhileD)
  ultimately show ?thesis
    unfolding loose_timing_form_def
    using timestamp_shape_ts_chars [OF sa] timestamp_shape_ts_chars [OF sb] by blast
qed

lemma parse_block_Some:
  assumes "parse_block block = Some seg"
  shows "3 \<le> length (block_lines block) \<and>
         (\<exists>start_ts end_ts.
            timing_match (block_lines block ! 1) = Some (start_ts, end_ts) \<and>
            seg = \<lparr>seg_start = parse_timestamp start_ts, seg_end = parse_timestamp end_ts,
                   seg_duration = float_sub (parse_timestamp end_ts) (parse_timestamp start_ts),
                   seg_text = strip (join '' '' (drop 2 (block_lines block)))\<rparr>)"
  using assms by (auto simp: parse_block_def Let_def split: if_splits option.splits)

lemma parse_block_None:
  "(parse_block block = None) =
     (length (block_lines block) < 3 \<or> timing_match (block_lines block ! 1) = None)"
  by (auto simp: parse_block_def Let_def split: if_splits option.splits)

lemma set_parse_blocks:
  "set (parse_blocks blocks) = {seg. \<exists>b \<in> set blocks. parse_block b = Some seg}"
  by (induction blocks) (auto split: option.splits)

lemma length_parse_blocks:
  "length (parse_blocks blocks) = length (filter (\<lambda>b. parse_block b \<noteq> None) blocks)"
  by (induction blocks) (auto split: option.splits)

lemmas eval_defs = parse_timestamp_def time_match_def re_digits_def re_lit_def is_digit_def int_of_digits_def digit_val_def
  strip_def is_space_def py_split_def blank_sep_def timing_match_def is_ts_char_def parse_block_def srt_blocks_def parse_srt_def Let_def block_lines_def
  float_evals

text \<open>
  Claim C2, amended. A block of at least three lines yields a Segment if and only if its
  second line starts with a run of digits, colons and commas, optional whitespace, the
  arrow \<^verbatim>\<open>-->\<close>, optional whitespace and a second such run, both runs non-empty;
  every other block is skipped. A second line that holds two timestamps of the shape
  \<^verbatim>\<open>DD:DD:DD,DDD\<close> around the arrow is of this kind. So the segments of a document are
  as many as its blocks of at least three lines with such a second line.
\<close>

theorem segment_emitted_iff:
  "(3 \<le> length (block_lines block) \<longrightarrow>
      (parse_block block \<noteq> None) = loose_timing_form (block_lines block ! 1)) \<and>
   (3 \<le> length (block_lines block) \<and> spec_timing_form (block_lines block ! 1) \<longrightarrow>
      parse_block block \<noteq> None) \<and>
   length (parse_srt content) =
     length (filter (\<lambda>b. 3 \<le> length (block_lines b) \<and> loose_timing_form (block_lines b ! 1))
               (srt_blocks content))"
proof -
  have one: "(parse_block b \<noteq> None) =
               (3 \<le> length (block_lines b) \<and> loose_timing_form (block_lines b ! 1))" for b
    using parse_block_None [of b] timing_match_iff [of "block_lines b ! 1"] by auto
  have "(\<lambda>b. parse_block b \<noteq> None) =
          (\<lambda>b. 3 \<le> length (block_lines b) \<and> loose_timing_form (block_lines b ! 1))"
    by (rule ext) (rule one)
  then have "length (parse_srt content) =
      length (filter (\<lambda>b. 3 \<le> length (block_lines b) \<and> loose_timing_form (block_lines b ! 1))
                (srt_blocks content))"
    by (simp only: parse_srt_def length_parse_blocks)
  with one [of block] spec_form_is_loose [of "block_lines block ! 1"] show ?thesis by blast
qed

theorem segment_emitted_iff_witness:
  "3 \<le> length (block_lines ''7\<newline>00:00:01,000 --> 00:00:02,500\<newline>la la'') \<and>
   parse_block ''7\<newline>00:00:01,000 --> 00:00:02,500\<newline>la la'' \<noteq> None \<and>
   loose_timing_form (block_lines ''7\<newline>00:00:01,000 --> 00:00:02,500\<newline>la la'' ! 1) \<and>
   3 \<le> length (block_lines ''7\<newline>00:00:01,000 to 00:00:02,500\<newline>la la'') \<and>
   parse_block ''7\<newline>00:00:01,000 to 00:00:02,500\<newline>la la'' = None \<and>
   \<not> loose_timing_form (block_lines ''7\<newline>00:00:01,000 to 00:00:02,500\<newline>la la'' ! 1)"
proof -
  have a: "3 \<le> length (block_lines ''7\<newline>00:00:01,000 --> 00:00:02,500\<newline>la la'')"
    by (simp add: block_lines_def py_split_def strip_def is_space_def)
  have b: "parse_block ''7\<newline>00:00:01,000 --> 00:00:02,500\<newline>la la'' \<noteq> None"
    by (simp add: eval_defs)
  have c: "3 \<le> length (block_lines ''7\<newline>00:00:01,000 to 00:00:02,500\<newline>la la'')"
    by (simp add: block_lines_def py_split_def strip_def is_space_def)
  have d: "parse_block ''7\<newline>00:00:01,000 to 00:00:02,500\<newline>la la'' = None"
    by (simp add: eval_defs)
  from a b c d
    segment_emitted_iff [of "''7\<newline>00:00:01,000 --> 00:00:02,500\<newline>la la''" "[]"]
    segment_emitted_iff [of "''7\<newline>00:00:01,000 to 00:00:02,500\<newline>la la''" "[]"]
  show ?thesis by blast
qed

text \<open>
  Claim C2, as the specification states it, fails: the timing line \<^verbatim>\<open>1 --> 2\<close> holds
  no timestamp of the shape \<^verbatim>\<open>DD:DD:DD,DDD\<close>, and its block yields a Segment (with both
  offsets 0).
\<close>

theorem loose_timing_counterexample:
  "3 \<le> length (block_lines sample_loose) \<and>
   \<not> spec_timing_form (block_lines sample_loose ! 1) \<and>
   parse_srt sample_loose =
     [\<lparr>seg_start = 0, seg_end = 0, seg_duration = 0, seg_text = ''Hi''\<rparr>]"
  by (simp add: sample_loose_def spec_timing_form_def eval_defs)


lemma parse_block_nonneg:
  assumes "parse_block block = Some seg"
  shows "0 \<le> seg_start seg \<and> 0 \<le> seg_end seg \<and>
         seg_duration seg = float_sub (seg_end seg) (seg_start seg)"
proof -
  from parse_block_Some [OF assms] obtain start_ts end_ts where
    "seg = \<lparr>seg_start = parse_timestamp start_ts, seg_end = parse_timestamp end_ts,
            seg_duration = float_sub (parse_timestamp end_ts) (parse_timestamp start_ts),
            seg_text = strip (join '' '' (drop 2 (block_lines block)))\<rparr>"
    by blast
  then show ?thesis
    using parse_timestamp_nonneg [of start_ts] parse_timestamp_nonneg [of end_ts] by simp
qed

lemma parse_srt_segment:
  assumes "seg \<in> set (parse_srt content)"
  shows "\<exists>block \<in> set (srt_blocks content). parse_block block = Some seg"
  using assms by (simp add: parse_srt_def set_parse_blocks)

text \<open>
  Claim C4, amended. Every Segment of every subtitle document has a start offset and an
  end offset that are not negative. (The segmenter does not compare the two offsets.)
\<close>

theorem segment_offsets_nonneg:
  "\<forall>seg \<in> set (parse_srt content). 0 \<le> seg_start seg \<and> 0 \<le> seg_end seg"
  using parse_srt_segment parse_block_nonneg by blast

theorem segment_offsets_nonneg_witness:
  "set (parse_srt sample_inverted) \<noteq> {} \<and>
   0 \<le> seg_start (hd (parse_srt sample_inverted)) \<and>
   0 \<le> seg_end (hd (parse_srt sample_inverted))"
proof -
  have "parse_srt sample_inverted =
      [\<lparr>seg_start = 5, seg_end = 2, seg_duration = - 3, seg_text = ''Hi''\<rparr>]"
    by (simp add: sample_inverted_def eval_defs)
  then have "hd (parse_srt sample_inverted) \<in> set (parse_srt sample_inverted)"
    and "set (parse_srt sample_inverted) \<noteq> {}"
    by simp_all
  with segment_offsets_nonneg [of sample_inverted] show ?thesis by blast
qed

text \<open>
  Claim C4, as the specification states it, fails: a cue whose timing line names the later
  time first becomes a Segment whose end lies before its start, with a negative duration.
\<close>

theorem segment_order_counterexample:
  "parse_srt sample_inverted =
     [\<lparr>seg_start = 5, seg_end = 2, seg_duration = - 3, seg_text = ''Hi''\<rparr>] \<and>
   \<not> seg_start (hd (parse_srt sample_inverted)) < seg_end (hd (parse_srt sample_inverted)) \<and>
   \<not> 0 < seg_duration (hd (parse_srt sample_inverted))"
  by (simp add: sample_inverted_def eval_defs)

section \<open>Pipeline Driver: properties\<close>

lemma prompt_loop_length:
  "length (prompt_loop i segments suno_style elements base_style) = length segments"
  by (induction segments arbitrary: i) (simp_all add: Let_def)

lemma prompt_loop_nth:
  "k < length segments \<Longrightarrow>
   prompt_loop i segments suno_style elements base_style ! k =
     \<lparr>pr_sequence = i + k, pr_start = seg_start (segments ! k),
      pr_end = seg_end (segments ! k), pr_duration = seg_duration (segments ! k),
      pr_lyric = seg_text (segments ! k),
      pr_lyric_cleaned = strip (remove_parens (seg_text (segments ! k))),
      pr_prompt = generate_image_prompt (seg_text (segments ! k)) suno_style elements base_style,
      pr_filename = ''scene_'' @ format_03d (i + k) @ ''.jpg''\<rparr>"
proof (induction segments arbitrary: i k)
  case Nil
  then show ?case by simp
next
  case (Cons seg segments)
  show ?case
  proof (cases k)
    case 0
    then show ?thesis by (simp add: Let_def)
  next
    case (Suc j)
    with Cons.prems have "j < length segments" by simp
    from Cons.IH [OF this, of "Suc i"] Suc show ?thesis by (simp add: Let_def)
  qed
qed

lemma main_cases:
  "main srt_text style_text base_style =
     (if parse_srt srt_text = [] then Inl (SysExit 1)
      else Inr (prompt_loop 1 (parse_srt srt_text)
                  (case style_text of Some t \<Rightarrow> strip t | None \<Rightarrow> [])
                  (if (case style_text of Some t \<Rightarrow> strip t | None \<Rightarrow> []) \<noteq> []
                   then extract_style_elements (case style_text of Some t \<Rightarrow> strip t | None \<Rightarrow> [])
                   else None)
                  base_style))"
  by (simp add: main_def Let_def)

text \<open>
  Claim C8. Every Segment of every subtitle document has the duration that Python's
  \<^verbatim>\<open>end - start\<close> gives for its two offsets (the float difference), and when the driver
  returns records there is one per Segment, in order, whose start, end and duration are
  the Segment's, so that its duration is that same difference.
\<close>

theorem duration_is_difference:
  "(\<forall>seg \<in> set (parse_srt srt_text).
      seg_duration seg = float_sub (seg_end seg) (seg_start seg)) \<and>
   (main srt_text style_text base_style = Inr records \<longrightarrow>
      length records = length (parse_srt srt_text) \<and>
      (\<forall>k < length records.
         pr_start (records ! k) = seg_start (parse_srt srt_text ! k) \<and>
         pr_end (records ! k) = seg_end (parse_srt srt_text ! k) \<and>
         pr_duration (records ! k) = seg_duration (parse_srt srt_text ! k) \<and>
         pr_duration (records ! k) = float_sub (pr_end (records ! k)) (pr_start (records ! k))))"
proof (intro conjI impI)
  show seg: "\<forall>seg \<in> set (parse_srt srt_text).
      seg_duration seg = float_sub (seg_end seg) (seg_start seg)"
    using parse_srt_segment parse_block_nonneg by blast
  assume m: "main srt_text style_text base_style = Inr records"
  then obtain suno_style elements where
    r: "records = prompt_loop 1 (parse_srt srt_text) suno_style elements base_style"
    by (auto simp: main_cases split: if_splits)
  then show len: "length records = length (parse_srt srt_text)"
    by (simp add: prompt_loop_length)
  show "\<forall>k < length records.
         pr_start (records ! k) = seg_start (parse_srt srt_text ! k) \<and>
         pr_end (records ! k) = seg_end (parse_srt srt_text ! k) \<and>
         pr_duration (records ! k) = seg_duration (parse_srt srt_text ! k) \<and>
         pr_duration (records ! k) = float_sub (pr_end (records ! k)) (pr_start (records ! k))"
  proof (intro allI impI)
    fix k assume "k < length records"
    with len have k: "k < length (parse_srt srt_text)" by simp
    then have "parse_srt srt_text ! k \<in> set (parse_srt srt_text)" by simp
    with seg have "seg_duration (parse_srt srt_text ! k) =
        float_sub (seg_end (parse_srt srt_text ! k)) (seg_start (parse_srt srt_text ! k))"
      by blast
    with k show "pr_start (records ! k) = seg_start (parse_srt srt_text ! k) \<and>
         pr_end (records ! k) = seg_end (parse_srt srt_text ! k) \<and>
         pr_duration (records ! k) = seg_duration (parse_srt srt_text ! k) \<and>
         pr_duration (records ! k) = float_sub (pr_end (records ! k)) (pr_start (records ! k))"
      by (simp add: r prompt_loop_nth)
  qed
qed

theorem duration_is_difference_witness:
  "seg_duration (hd (parse_srt sample_srt)) =
     float_sub (seg_end (hd (parse_srt sample_srt))) (seg_start (hd (parse_srt sample_srt))) \<and>
   main sample_srt None ''photorealistic'' = Inr sample_records \<and>
   length sample_records = 2 \<and>
   pr_duration (sample_records ! 1) = 5 / 2 \<and>
   float_sub (pr_end (sample_records ! 1)) (pr_start (sample_records ! 1)) = 5 / 2"
proof -
  have p: "parse_srt sample_srt =
      [\<lparr>seg_start = 0, seg_end = 2, seg_duration = 2, seg_text = ''Hello world''\<rparr>,
       \<lparr>seg_start = 2, seg_end = 9 / 2, seg_duration = 5 / 2,
          seg_text = ''(oohs) [Bridge]''\<rparr>]"
    by (simp add: sample_srt_def eval_defs)
  then have h: "hd (parse_srt sample_srt) \<in> set (parse_srt sample_srt)" by simp
  have m: "main sample_srt None ''photorealistic'' = Inr sample_records"
    by (simp add: main_cases p sample_records_def)
  have d: "pr_duration (sample_records ! 1) = 5 / 2"
    by (simp add: sample_records_def p prompt_loop_nth)
  note t = duration_is_difference [of sample_srt None "''photorealistic''" sample_records]
  from t h have a: "seg_duration (hd (parse_srt sample_srt)) =
      float_sub (seg_end (hd (parse_srt sample_srt))) (seg_start (hd (parse_srt sample_srt)))"
    by blast
  from t m have b: "length sample_records = length (parse_srt sample_srt)"
    and c: "\<forall>k < length sample_records.
         pr_start (sample_records ! k) = seg_start (parse_srt sample_srt ! k) \<and>
         pr_end (sample_records ! k) = seg_end (parse_srt sample_srt ! k) \<and>
         pr_duration (sample_records ! k) = seg_duration (parse_srt sample_srt ! k) \<and>
         pr_duration (sample_records ! k) =
           float_sub (pr_end (sample_records ! k)) (pr_start (sample_records ! k))"
    by blast+
  from b p have l: "length sample_records = 2" by simp
  then have "1 < length sample_records" by simp
  with c have "pr_duration (sample_records ! 1) =
      float_sub (pr_end (sample_records ! 1)) (pr_start (sample_records ! 1))"
    by blast
  with d have e: "float_sub (pr_end (sample_records ! 1)) (pr_start (sample_records ! 1)) = 5 / 2"
    by simp
  from a m l d e show ?thesis by blast
qed


section \<open>Prompt Synthesizer: properties\<close>

text \<open>The substring test is the library's contiguous-sublist relation.\<close>

lemma contains_sublist: "contains s sub = sublist sub s"
  by (induction s) (simp_all add: sublist_Cons_right)

lemma join_two_more:
  "ps \<noteq> [] \<Longrightarrow> join sep (ps @ [p, q]) = join sep ps @ sep @ p @ sep @ q"
proof (induction sep ps rule: join.induct)
  case (1 sep)
  then show ?case by simp
next
  case (2 sep x)
  show ?case by simp
next
  case (3 sep x y ps)
  then show ?case by simp
qed

text \<open>Every prompt ends with the lyric part and the technical part.\<close>

lemma generate_image_prompt_form:
  "\<exists>pre. generate_image_prompt lyric_text suno_style elements base_style =
     pre @ (''scene depicting: '' @ prompt_lyric lyric_text) @
       '' | 16:9 aspect ratio, high quality, cinematic composition''"
proof -
  define ps where "ps =
     (case elements of
        Some e \<Rightarrow> if mood e \<noteq> []
          then (if visual_keywords e \<noteq> []
                then [base_style] @ [join '', '' (take 3 (visual_keywords e))]
                else [base_style]) @ [mood e @ '' atmosphere'']
          else (if visual_keywords e \<noteq> []
                then [base_style] @ [join '', '' (take 3 (visual_keywords e))]
                else [base_style])
      | None \<Rightarrow> [base_style])"
  have ne: "ps \<noteq> []"
    by (simp add: ps_def split: option.splits)
  have "generate_image_prompt lyric_text suno_style elements base_style =
      join '' | '' (ps @ [''scene depicting: '' @ prompt_lyric lyric_text,
        ''16:9 aspect ratio, high quality, cinematic composition''])"
    by (simp add: generate_image_prompt_def ps_def Let_def split: option.splits)
  also have "\<dots> = (join '' | '' ps @ '' | '') @
      (''scene depicting: '' @ prompt_lyric lyric_text) @
      '' | 16:9 aspect ratio, high quality, cinematic composition''"
    using join_two_more [OF ne] by simp
  finally show ?thesis by blast
qed

lemma generate_image_prompt_scene:
  "contains (generate_image_prompt lyric_text suno_style elements base_style)
     (''scene depicting: '' @ prompt_lyric lyric_text)"
proof -
  from generate_image_prompt_form [of lyric_text suno_style elements base_style]
  obtain pre where "generate_image_prompt lyric_text suno_style elements base_style =
     pre @ (''scene depicting: '' @ prompt_lyric lyric_text) @
       '' | 16:9 aspect ratio, high quality, cinematic composition''" by blast
  then show ?thesis by (simp only: contains_sublist sublist_appendI)
qed

lemma contains_trans: "contains s t \<Longrightarrow> contains t u \<Longrightarrow> contains s u"
  unfolding contains_sublist by (rule sublist_order.order_trans [rotated])

lemma prompt_lyric_bracket:
  assumes "strip (remove_parens (strip lyric_text)) = CHR ''['' # inner @ '']''"
  shows "prompt_lyric lyric_text =
     (if list_ex (\<lambda>word. contains (lower inner) word) structural_markers
      then abstract_lyric
      else capitalize (lower inner) @ '' atmosphere'')"
proof -
  have s: "suffix '']'' (CHR ''['' # inner @ '']'')"
    by (rule suffixI [of _ "CHR ''['' # inner"]) simp
  have a: "abstract_lyric \<noteq> [] \<and> \<not> isspace abstract_lyric"
    by (simp add: abstract_lyric_def isspace_def is_space_def)
  have b: "x @ '' atmosphere'' \<noteq> [] \<and> \<not> isspace (x @ '' atmosphere'')" for x
    by (simp add: isspace_def is_space_def)
  show ?thesis
    using a b s by (simp add: prompt_lyric_def assms Let_def butlast_append)
qed


lemmas text_defs = strip_def is_space_def lower_def lower_char_def upper_letters_def
  lower_letters_def title_char_def structural_markers_def abstract_lyric_def

text \<open>
  Claim C5. When the cue text, stripped and with its parenthesized spans removed, starts
  with \<^verbatim>\<open>[\<close> and ends with \<^verbatim>\<open>]\<close>, the lyric line of the prompt is the literal
  \<^verbatim>\<open>Abstract visual interpretation of the music\<close> if a structural marker occurs in the
  lower-cased text between the brackets, and otherwise that text, capitalized, followed by
  \<^verbatim>\<open> atmosphere\<close>; the prompt contains \<^verbatim>\<open>scene depicting: \<close> followed by this line. The
  cue \<^verbatim>\<open>[Intense]\<close> gives a prompt that contains \<^verbatim>\<open>Intense atmosphere\<close>, the cue
  \<^verbatim>\<open>[Instrumental]\<close> one that contains the literal.
\<close>

theorem bracket_marker_line:
  "(strip (remove_parens (strip lyric_text)) = CHR ''['' # inner @ '']'' \<longrightarrow>
      prompt_lyric lyric_text =
        (if list_ex (\<lambda>word. contains (lower inner) word) structural_markers
         then ''Abstract visual interpretation of the music''
         else capitalize (lower inner) @ '' atmosphere'') \<and>
      contains (generate_image_prompt lyric_text suno_style elements base_style)
        (''scene depicting: '' @ prompt_lyric lyric_text)) \<and>
   contains (generate_image_prompt ''[Intense]'' suno_style elements base_style)
     ''Intense atmosphere'' \<and>
   contains (generate_image_prompt ''[Instrumental]'' suno_style elements base_style)
     ''Abstract visual interpretation of the music''"
proof (intro conjI impI)
  assume "strip (remove_parens (strip lyric_text)) = CHR ''['' # inner @ '']''"
  from prompt_lyric_bracket [OF this]
  show "prompt_lyric lyric_text =
        (if list_ex (\<lambda>word. contains (lower inner) word) structural_markers
         then ''Abstract visual interpretation of the music''
         else capitalize (lower inner) @ '' atmosphere'')"
    by (simp add: abstract_lyric_def)
next
  show "contains (generate_image_prompt lyric_text suno_style elements base_style)
        (''scene depicting: '' @ prompt_lyric lyric_text)"
    by (rule generate_image_prompt_scene)
next
  have "strip (remove_parens (strip ''[Intense]'')) = CHR ''['' # ''Intense'' @ '']''"
    by (simp add: strip_def is_space_def)
  from prompt_lyric_bracket [OF this]
  have "prompt_lyric ''[Intense]'' = ''Intense atmosphere''"
    by (simp add: text_defs)
  with generate_image_prompt_scene [of "''[Intense]''" suno_style elements base_style]
  have "contains (generate_image_prompt ''[Intense]'' suno_style elements base_style)
          (''scene depicting: '' @ ''Intense atmosphere'')" by simp
  moreover have "contains (''scene depicting: '' @ ''Intense atmosphere'') ''Intense atmosphere''"
    by (simp only: contains_sublist sublist_append_leftI)
  ultimately show "contains (generate_image_prompt ''[Intense]'' suno_style elements base_style)
     ''Intense atmosphere''"
    by (rule contains_trans)
next
  have "strip (remove_parens (strip ''[Instrumental]'')) = CHR ''['' # ''Instrumental'' @ '']''"
    by (simp add: strip_def is_space_def)
  from prompt_lyric_bracket [OF this]
  have "prompt_lyric ''[Instrumental]'' = ''Abstract visual interpretation of the music''"
    by (simp add: text_defs)
  with generate_image_prompt_scene [of "''[Instrumental]''" suno_style elements base_style]
  have "contains (generate_image_prompt ''[Instrumental]'' suno_style elements base_style)
          (''scene depicting: '' @ ''Abstract visual interpretation of the music'')" by simp
  moreover have "contains (''scene depicting: '' @ ''Abstract visual interpretation of the music'')
      ''Abstract visual interpretation of the music''"
    by (simp only: contains_sublist sublist_append_leftI)
  ultimately show "contains (generate_image_prompt ''[Instrumental]'' suno_style elements base_style)
     ''Abstract visual interpretation of the music''"
    by (rule contains_trans)
qed

theorem bracket_marker_line_witness:
  "strip (remove_parens (strip '' (ooh) [Guitar Solo] '')) = CHR ''['' # ''Guitar Solo'' @ '']'' \<and>
   prompt_lyric '' (ooh) [Guitar Solo] '' = ''Abstract visual interpretation of the music'' \<and>
   strip (remove_parens (strip ''[Sad]'')) = CHR ''['' # ''Sad'' @ '']'' \<and>
   prompt_lyric ''[Sad]'' = ''Sad atmosphere'' \<and>
   contains (generate_image_prompt ''[Sad]'' [] None ''photorealistic'')
     ''scene depicting: Sad atmosphere''"
proof -
  have a: "strip (remove_parens (strip '' (ooh) [Guitar Solo] '')) = CHR ''['' # ''Guitar Solo'' @ '']''"
    by (simp add: strip_def is_space_def)
  have b: "strip (remove_parens (strip ''[Sad]'')) = CHR ''['' # ''Sad'' @ '']''"
    by (simp add: strip_def is_space_def)
  from a bracket_marker_line [of "'' (ooh) [Guitar Solo] ''" "''Guitar Solo''" "[]" None "''photorealistic''"]
  have c: "prompt_lyric '' (ooh) [Guitar Solo] '' = ''Abstract visual interpretation of the music''"
    by (simp add: text_defs)
  note sad = bracket_marker_line [of "''[Sad]''" "''Sad''" "[]" None "''photorealistic''"]
  from b sad have d: "prompt_lyric ''[Sad]'' = ''Sad atmosphere''"
    by (simp add: text_defs)
  from b sad have "contains (generate_image_prompt ''[Sad]'' [] None ''photorealistic'')
     (''scene depicting: '' @ prompt_lyric ''[Sad]'')"
    by blast
  then have e: "contains (generate_image_prompt ''[Sad]'' [] None ''photorealistic'')
     ''scene depicting: Sad atmosphere''"
    by (simp add: d)
  from a b c d e show ?thesis by simp
qed

text \<open>
  Claim C9. For every cue text, every style dictionary and every base style, the Prompt
  Synthesizer returns a prompt that is not empty (and whose lyric line is not empty). The
  function has no failing branch.
\<close>

theorem prompt_never_empty:
  "generate_image_prompt lyric_text suno_style elements base_style \<noteq> [] \<and>
   prompt_lyric lyric_text \<noteq> []"
proof
  from generate_image_prompt_form [of lyric_text suno_style elements base_style]
  show "generate_image_prompt lyric_text suno_style elements base_style \<noteq> []" by auto
  show "prompt_lyric lyric_text \<noteq> []"
    by (simp add: prompt_lyric_def Let_def abstract_lyric_def)
qed


section \<open>Style Extractor: properties\<close>

text \<open>The mood loop returns the first word of its list that occurs in the style text.\<close>

lemma mood_loop_find:
  "mood_loop ws lower_style m =
     (case find (\<lambda>w. contains lower_style w) ws of Some w \<Rightarrow> w | None \<Rightarrow> m)"
  by (induction ws) simp_all

lemma contains_lower: "contains s sub \<Longrightarrow> contains (lower s) (lower sub)"
  unfolding contains_sublist lower_def by (rule map_mono_sublist)

lemma extract_mood:
  "suno_style \<noteq> [] \<Longrightarrow>
   map_option mood (extract_style_elements suno_style) =
     Some (mood_loop mood_keywords (lower suno_style) [])"
  by (simp add: extract_style_elements_def Let_def)

text \<open>
  Claim C7. The Style Extractor stores one mood: for a style text that is not empty, the
  first word of the ordered mood list that occurs in the lower-cased style text (the empty
  string if none occurs). For every style text that contains both \<^verbatim>\<open>dark\<close> and
  \<^verbatim>\<open>energetic\<close> the mood is \<^verbatim>\<open>dark\<close>.
\<close>

theorem first_mood_wins:
  "(suno_style \<noteq> [] \<longrightarrow>
      map_option mood (extract_style_elements suno_style) =
        Some (case find (\<lambda>w. contains (lower suno_style) w) mood_keywords of
                Some w \<Rightarrow> w | None \<Rightarrow> [])) \<and>
   (contains suno_style ''dark'' \<and> contains suno_style ''energetic'' \<longrightarrow>
      map_option mood (extract_style_elements suno_style) = Some ''dark'')"
proof (intro conjI impI)
  assume "suno_style \<noteq> []"
  then show "map_option mood (extract_style_elements suno_style) =
        Some (case find (\<lambda>w. contains (lower suno_style) w) mood_keywords of
                Some w \<Rightarrow> w | None \<Rightarrow> [])"
    by (simp add: extract_mood mood_loop_find)
next
  assume "contains suno_style ''dark'' \<and> contains suno_style ''energetic''"
  then have d: "contains suno_style ''dark''" by blast
  then have ne: "suno_style \<noteq> []" by auto
  have "lower ''dark'' = ''dark''"
    by (simp add: lower_def lower_char_def upper_letters_def lower_letters_def)
  with contains_lower [OF d] have "contains (lower suno_style) ''dark''" by simp
  then have "mood_loop mood_keywords (lower suno_style) [] = ''dark''"
    by (simp add: mood_keywords_def)
  with extract_mood [OF ne]
  show "map_option mood (extract_style_elements suno_style) = Some ''dark''" by simp
qed

theorem first_mood_wins_witness:
  "''Energetic synthwave, dark and dreamy'' \<noteq> [] \<and>
   contains ''Energetic synthwave, dark and dreamy'' ''dark'' \<and>
   map_option mood (extract_style_elements ''Energetic synthwave, dark and dreamy'') = Some ''dark'' \<and>
   contains ''energetic and dark'' ''energetic'' \<and>
   map_option mood (extract_style_elements ''energetic and dark'') = Some ''dark''"
proof -
  have a: "contains ''energetic and dark'' ''dark'' \<and> contains ''energetic and dark'' ''energetic''"
    by simp
  have b: "''Energetic synthwave, dark and dreamy'' \<noteq> []" by simp
  have c: "contains ''Energetic synthwave, dark and dreamy'' ''dark''" by simp
  have "find (\<lambda>w. contains (lower ''Energetic synthwave, dark and dreamy'') w) mood_keywords
          = Some ''dark''"
    by (simp add: mood_keywords_def lower_def lower_char_def upper_letters_def lower_letters_def)
  with b first_mood_wins [of "''Energetic synthwave, dark and dreamy''"]
  have d: "map_option mood (extract_style_elements ''Energetic synthwave, dark and dreamy'') = Some ''dark''"
    by simp
  from a first_mood_wins [of "''energetic and dark''"]
  have e: "map_option mood (extract_style_elements ''energetic and dark'') = Some ''dark''"
    by blast
  from a b c d e show ?thesis by blast
qed

section \<open>End-to-end scenario\<close>

text \<open>
  Claim C1, amended. For every subtitle document that parses into two Segments with the
  cue texts \<^verbatim>\<open>Hello world\<close> and \<^verbatim>\<open>(oohs) [Bridge]\<close>, processed with no style text and
  the base style \<^verbatim>\<open>photorealistic\<close>, the driver returns exactly two records; the second
  record's cleaned lyric is \<^verbatim>\<open>[Bridge]\<close> (the parenthesized span is removed, the bracketed
  marker stays), and its prompt contains
  \<^verbatim>\<open>scene depicting: Abstract visual interpretation of the music\<close>.
\<close>

theorem two_cue_scenario:
  assumes "parse_srt srt_text = [s1, s2]"
    and "seg_text s1 = ''Hello world''"
    and "seg_text s2 = ''(oohs) [Bridge]''"
  shows "\<exists>records.
           main srt_text None ''photorealistic'' = Inr records \<and>
           length records = 2 \<and>
           pr_lyric_cleaned (records ! 1) = ''[Bridge]'' \<and>
           contains (pr_prompt (records ! 1))
             ''scene depicting: Abstract visual interpretation of the music''"
proof -
  define records where "records = prompt_loop 1 [s1, s2] [] None ''photorealistic''"
  have m: "main srt_text None ''photorealistic'' = Inr records"
    by (simp add: main_cases assms(1) records_def)
  have l: "length records = 2"
    by (simp add: records_def prompt_loop_length)
  have r: "pr_lyric_cleaned (records ! 1) = strip (remove_parens (seg_text s2))"
    "pr_prompt (records ! 1) = generate_image_prompt (seg_text s2) [] None ''photorealistic''"
    using prompt_loop_nth [of 1 "[s1, s2]" 1 "[]" None "''photorealistic''"]
    by (simp_all add: records_def)
  have c: "strip (remove_parens ''(oohs) [Bridge]'') = ''[Bridge]''"
    by (simp add: strip_def is_space_def)
  have "strip (remove_parens (strip ''(oohs) [Bridge]'')) = CHR ''['' # ''Bridge'' @ '']''"
    by (simp add: strip_def is_space_def)
  from prompt_lyric_bracket [OF this]
  have "prompt_lyric ''(oohs) [Bridge]'' = ''Abstract visual interpretation of the music''"
    by (simp add: text_defs)
  with generate_image_prompt_scene [of "''(oohs) [Bridge]''" "[]" None "''photorealistic''"]
  have p: "contains (generate_image_prompt ''(oohs) [Bridge]'' [] None ''photorealistic'')
     ''scene depicting: Abstract visual interpretation of the music''"
    by simp
  from m l r c p show ?thesis by (simp add: assms(3))
qed

theorem two_cue_scenario_witness:
  "parse_srt sample_srt =
      [\<lparr>seg_start = 0, seg_end = 2, seg_duration = 2, seg_text = ''Hello world''\<rparr>,
       \<lparr>seg_start = 2, seg_end = 9 / 2, seg_duration = 5 / 2,
          seg_text = ''(oohs) [Bridge]''\<rparr>] \<and>
   main sample_srt None ''photorealistic'' = Inr sample_records \<and>
   length sample_records = 2 \<and>
   pr_lyric_cleaned (sample_records ! 1) = ''[Bridge]'' \<and>
   contains (pr_prompt (sample_records ! 1))
     ''scene depicting: Abstract visual interpretation of the music''"
proof -
  have p: "parse_srt sample_srt =
      [\<lparr>seg_start = 0, seg_end = 2, seg_duration = 2, seg_text = ''Hello world''\<rparr>,
       \<lparr>seg_start = 2, seg_end = 9 / 2, seg_duration = 5 / 2,
          seg_text = ''(oohs) [Bridge]''\<rparr>]"
    by (simp add: sample_srt_def eval_defs)
  have m: "main sample_srt None ''photorealistic'' = Inr sample_records"
    by (simp add: main_cases p sample_records_def)
  from two_cue_scenario [OF p] m show ?thesis
    using p by auto
qed

text \<open>
  Claim C1, as the specification states it, fails: for the sample document of two blocks
  the second record's cleaned lyric is not the empty string.
\<close>

theorem cleaned_lyric_counterexample:
  "main sample_srt None ''photorealistic'' = Inr sample_records \<and>
   length sample_records = 2 \<and>
   pr_lyric (sample_records ! 1) = ''(oohs) [Bridge]'' \<and>
   pr_lyric_cleaned (sample_records ! 1) \<noteq> []"
proof -
  have p: "parse_srt sample_srt =
      [\<lparr>seg_start = 0, seg_end = 2, seg_duration = 2, seg_text = ''Hello world''\<rparr>,
       \<lparr>seg_start = 2, seg_end = 9 / 2, seg_duration = 5 / 2,
          seg_text = ''(oohs) [Bridge]''\<rparr>]"
    by (simp add: sample_srt_def eval_defs)
  have m: "main sample_srt None ''photorealistic'' = Inr sample_records"
    by (simp add: main_cases p sample_records_def)
  have "pr_lyric_cleaned (sample_records ! 1) = ''[Bridge]''"
    by (simp add: sample_records_def p prompt_loop_nth strip_def is_space_def)
  moreover have "pr_lyric (sample_records ! 1) = ''(oohs) [Bridge]''"
    by (simp add: sample_records_def p prompt_loop_nth)
  moreover have "length sample_records = 2"
    by (simp add: sample_records_def p prompt_loop_length)
  ultimately show ?thesis using m by simp
qed


end
